theory Spec2Isabelle
  imports Main "HOL-Library.Char_ord" "HOL-Library.List_Lexorder" "HOL-Library.Multiset" "HOL-Library.AList"
begin

section \<open>Data model of cmd/sqlitedb\<close>

text \<open>
  The Go type \<^verbatim>\<open>dashboard\<close> (title, uid and tags of a dashboard JSON) and
  \<^verbatim>\<open>dashboardData\<close> (a dashboard with its database columns and file name).
  Go strings are byte sequences, as \<^typ>\<open>string\<close> is; they are compared bytewise
  (\<^verbatim>\<open>sort.Strings\<close>, \<^verbatim>\<open>==\<close>, and SQLite's default BINARY collation), which is
  the lexicographic order on \<^typ>\<open>char list\<close>.
\<close>

record dashboard_t =
  Title :: string
  UID :: string
  Tags :: "string list"

record dashboardData =
  dd_dash :: dashboard_t
  dd_id :: int
  dd_title :: string
  dd_slug :: string
  dd_data :: string
  dd_fn :: string

text \<open>The zero value of \<^verbatim>\<open>dashboard\<close>, as \<^verbatim>\<open>var dd dashboardData\<close> creates it.\<close>

definition zero_dashboard :: dashboard_t where
  "zero_dashboard = \<lparr>Title = [], UID = [], Tags = []\<rparr>"

text \<open>A row of the table \<^verbatim>\<open>dashboard(id, title, slug, data)\<close>.\<close>

record dashboard_row =
  row_id :: int
  row_title :: string
  row_slug :: string
  row_data :: string

text \<open>\<^verbatim>\<open>lib.Ctx\<close>: the program reads the debug level and the mode flag.\<close>

record Ctx =
  Debug :: int
  UIDMode :: bool

text \<open>
  Every \<^verbatim>\<open>lib.Printf\<close> call of the program, one constructor per call site, with the
  arguments the call formats.
\<close>

datatype msg =
    MsgTagInserted string int string string string
  | MsgTagDeleted string int string string string
  | MsgTagsUpdated string int string string nat nat
  | MsgBackedUp string
  | MsgUIDCompare dashboardData dashboardData
  | MsgUIDUpdatedDebug string string bool dashboardData dashboardData
  | MsgUIDUpdated string string string string string string bool "string list" nat nat
  | MsgUIDSummary nat nat nat
  | MsgImporting nat string "string list"
  | MsgUIDMismatch string string
  | MsgTitleUpdatedDebug string string string string bool "string list" string string
  | MsgTitleUpdated string string string string bool "string list"

text \<open>
  What a run does to the outside, in the order it does it: the three SQL statements that
  write (\<^verbatim>\<open>update dashboard set title = ?, slug = ?, data = ? where id = ?\<close>,
  \<^verbatim>\<open>insert into dashboard_tag\<close>, \<^verbatim>\<open>delete from dashboard_tag\<close>), the two
  \<^verbatim>\<open>ioutil.WriteFile\<close> call sites of an import (the backup of the database file and the
  \<^verbatim>\<open>.was\<close> file), and the printed messages.
\<close>

datatype event =
    DbUpdate string string string int
  | DbInsertTag int string
  | DbDeleteTag int string
  | WriteBackup string string
  | WriteSidecar string string
  | Printf msg

text \<open>
  The state a run works on: the file store, the two tables, and the events so far.
  The tables are held apart from the file store: the bytes of the database file are read
  once, at the start of an import, and never again.
\<close>

record world =
  files :: "string \<rightharpoonup> string"
  dashboard :: "dashboard_row list"
  dashboard_tag :: "(int \<times> string) list"
  out :: "event list"

text \<open>
  What the program takes from outside this file: \<^verbatim>\<open>encoding/json\<close>'s
  \<^verbatim>\<open>Unmarshal\<close> into a \<^verbatim>\<open>dashboard\<close> (it fills the fields the document has and keeps
  the others of the value it is given; \<open>None\<close> is its error), the helpers
  \<^verbatim>\<open>lib.PrettyPrintJSON\<close> (the program calls it only on bytes that
  \<^verbatim>\<open>json.Unmarshal\<close> has just accepted, where it is taken to succeed) and
  \<^verbatim>\<open>lib.Slugify\<close>, the order in which \<^verbatim>\<open>range\<close>
  visits the keys of a map (Go leaves it open: \<open>map_range\<close> is given the keys and
  returns them in the order of the visit), and the clock.
\<close>

record ext =
  Unmarshal :: "string \<Rightarrow> dashboard_t \<Rightarrow> dashboard_t option"
  PrettyPrintJSON :: "string \<Rightarrow> string"
  Slugify :: "string \<Rightarrow> string"
  map_range :: "string list \<Rightarrow> string list"
  UnixNano :: nat

definition printf :: "msg \<Rightarrow> world \<Rightarrow> world" where
  "printf m w = w\<lparr>out := out w @ [Printf m]\<rparr>"

text \<open>
  Reading the events: the statements that write to the database, and the events a call
  added to those already there.
\<close>

fun is_db_write :: "event \<Rightarrow> bool" where
  "is_db_write (DbUpdate t s d i) = True"
| "is_db_write (DbInsertTag d t) = True"
| "is_db_write (DbDeleteTag d t) = True"
| "is_db_write (WriteBackup p c) = False"
| "is_db_write (WriteSidecar p c) = False"
| "is_db_write (Printf m) = False"

definition db_writes :: "event list \<Rightarrow> event list" where
  "db_writes es = filter is_db_write es"

definition emitted :: "world \<Rightarrow> world \<Rightarrow> event list" where
  "emitted w w' = drop (length (out w)) (out w')"

text \<open>The events other than messages: the writes to the database and to files.\<close>

fun is_printf :: "event \<Rightarrow> bool" where
  "is_printf (Printf m) = True"
| "is_printf e = False"

definition effects :: "event list \<Rightarrow> event list" where
  "effects es = filter (\<lambda>e. \<not> is_printf e) es"

fun is_backup :: "event \<Rightarrow> bool" where
  "is_backup (WriteBackup p c) = True"
| "is_backup e = False"

definition backups :: "event list \<Rightarrow> event list" where
  "backups es = filter is_backup es"

text \<open>
  The two things after which an import calls \<^verbatim>\<open>backupFunc\<close>: a call of
  \<^verbatim>\<open>updateTags\<close> that returned true (it has then printed its summary line), and an
  update of a dashboard row.
\<close>

fun is_trigger :: "event \<Rightarrow> bool" where
  "is_trigger (DbUpdate t s d i) = True"
| "is_trigger (Printf (MsgTagsUpdated info did sDB sJSON nI nD)) = True"
| "is_trigger e = False"

text \<open>The ids of the dashboard rows that \<^verbatim>\<open>update dashboard\<close> statements name.\<close>

fun update_id :: "event \<Rightarrow> int option" where
  "update_id (DbUpdate t s d i) = Some i"
| "update_id e = None"

definition updated_ids :: "event list \<Rightarrow> int list" where
  "updated_ids es = List.map_filter update_id es"

text \<open>No backup comes before the first trigger.\<close>

definition backup_after_trigger :: "event list \<Rightarrow> bool" where
  "backup_after_trigger es = (backups (takeWhile (\<lambda>e. \<not> is_trigger e) es) = [])"

text \<open>
  The events before the first backup, the reports of changed tags, and the property that
  the backup is the work of the first changed item: when it is written, at most one row
  has been updated and at most one report of changed tags printed.
\<close>

definition before_backup :: "event list \<Rightarrow> event list" where
  "before_backup es = takeWhile (\<lambda>e. \<not> is_backup e) es"

fun is_tags_report :: "event \<Rightarrow> bool" where
  "is_tags_report (Printf (MsgTagsUpdated info did sDB sJSON nI nD)) = True"
| "is_tags_report e = False"

definition first_change_only :: "event list \<Rightarrow> bool" where
  "first_change_only es =
     (length (updated_ids (before_backup es)) \<le> 1 \<and>
      length (filter is_tags_report (before_backup es)) \<le> 1)"


section \<open>updateTags\<close>

text \<open>\<^verbatim>\<open>strings.Join\<close>.\<close>

fun Join :: "string list \<Rightarrow> string \<Rightarrow> string" where
  "Join [] sep = []"
| "Join [x] sep = x"
| "Join (x # y # ys) sep = x @ sep @ Join (y # ys) sep"

text \<open>\<^verbatim>\<open>select term from dashboard_tag where dashboard_id = ? order by term asc\<close>\<close>

definition tag_rows :: "world \<Rightarrow> int \<Rightarrow> string list" where
  "tag_rows w did = map snd (filter (\<lambda>r. fst r = did) (dashboard_tag w))"

definition query_tags :: "world \<Rightarrow> int \<Rightarrow> string list" where
  "query_tags w did = sort (tag_rows w did)"

text \<open>\<^verbatim>\<open>insert into dashboard_tag(dashboard_id, term) values(?, ?)\<close>\<close>

definition exec_insert_tag :: "int \<Rightarrow> string \<Rightarrow> world \<Rightarrow> world" where
  "exec_insert_tag did tag w =
     w\<lparr>dashboard_tag := dashboard_tag w @ [(did, tag)],
       out := out w @ [DbInsertTag did tag]\<rparr>"

text \<open>\<^verbatim>\<open>delete from dashboard_tag where dashboard_id = ? and term = ?\<close>\<close>

definition exec_delete_tag :: "int \<Rightarrow> string \<Rightarrow> world \<Rightarrow> world" where
  "exec_delete_tag did tag w =
     w\<lparr>dashboard_tag := filter (\<lambda>r. \<not> (fst r = did \<and> snd r = tag)) (dashboard_tag w),
       out := out w @ [DbDeleteTag did tag]\<rparr>"

text \<open>
  The body of \<^verbatim>\<open>for tag := range allMap\<close>: \<open>j\<close> and \<open>d\<close> are the two map lookups,
  the state is the world with the counters \<open>nI\<close> and \<open>nD\<close>.
\<close>

definition sync_tag ::
  "Ctx \<Rightarrow> int \<Rightarrow> string \<Rightarrow> string \<Rightarrow> string \<Rightarrow> string list \<Rightarrow> string list \<Rightarrow> string \<Rightarrow>
   world \<times> nat \<times> nat \<Rightarrow> world \<times> nat \<times> nat" where
  "sync_tag ctx did info sDBTags sJSONTags jsonTags dbTags tag s =
     (case s of (w, nI, nD) \<Rightarrow>
        let j = (tag \<in> set jsonTags);
            d = (tag \<in> set dbTags);
            s1 = (if j \<and> \<not> d then
                    let w1 = exec_insert_tag did tag w;
                        w2 = (if Debug ctx > 0
                              then printf (MsgTagInserted info did sDBTags sJSONTags tag) w1
                              else w1)
                    in (w2, nI + 1, nD)
                  else (w, nI, nD))
        in (case s1 of (w', nI', nD') \<Rightarrow>
              if \<not> j \<and> d then
                let w1 = exec_delete_tag did tag w';
                    w2 = (if Debug ctx > 0
                          then printf (MsgTagDeleted info did sDBTags sJSONTags tag) w1
                          else w1)
                in (w2, nI', nD' + 1)
              else s1))"

text \<open>
  The statements the loop is to issue when it visits the keys \<open>ks\<close>, for the JSON tags
  \<open>A\<close> and the database tags \<open>B\<close>: an insert for a key in \<open>A\<close> only, a delete for a
  key in \<open>B\<close> only.
\<close>

definition tag_plan :: "int \<Rightarrow> string list \<Rightarrow> string list \<Rightarrow> string list \<Rightarrow> event list" where
  "tag_plan did A B ks =
     concat (map (\<lambda>t. if t \<in> set A \<and> t \<notin> set B then [DbInsertTag did t]
                       else if t \<notin> set A \<and> t \<in> set B then [DbDeleteTag did t] else []) ks)"

text \<open>
  \<^verbatim>\<open>updateTags(db, ctx, did, jsonTags, info)\<close>. It returns its boolean, the caller's
  tag slice as \<^verbatim>\<open>sort.Strings\<close> leaves it (the sort is in place), and the world.
  The keys of \<^verbatim>\<open>allMap\<close> are the tags of both lists, once each.
\<close>

definition updateTags ::
  "ext \<Rightarrow> Ctx \<Rightarrow> int \<Rightarrow> string list \<Rightarrow> string \<Rightarrow> world \<Rightarrow> bool \<times> string list \<times> world" where
  "updateTags x ctx did jsonTags0 info w =
     (let dbTags = query_tags w did;
          jsonTags = sort jsonTags0;
          sJSONTags = Join jsonTags '','';
          sDBTags = Join dbTags '',''
      in if sJSONTags = sDBTags then (False, jsonTags, w)
         else
           (case fold (sync_tag ctx did info sDBTags sJSONTags jsonTags dbTags)
                      (map_range x (remdups (jsonTags @ dbTags))) (w, 0, 0) of
              (w', nI, nD) \<Rightarrow>
                (True, jsonTags,
                 printf (MsgTagsUpdated info did sDBTags sJSONTags nI nD) w')))"

section \<open>The two imports\<close>

text \<open>
  \<^verbatim>\<open>lib.FatalOnError\<close> and \<^verbatim>\<open>lib.Fatalf\<close> end the process. A run returns the fatal
  error it ended with, if any, and the world as it was at that moment. The errors are
  those of reading a file, of \<^verbatim>\<open>json.Unmarshal\<close>, and the four \<^verbatim>\<open>lib.Fatalf\<close> calls.
  The SQL statements and \<^verbatim>\<open>ioutil.WriteFile\<close> are taken to succeed.
\<close>

datatype fatal =
    ReadFileFailed string
  | UnmarshalFailed string
  | Inconsistency string string
  | UIDNotFound string string string
  | DuplicateUID string dashboard_t dashboard_t
  | BadItem
  | TitleNotFound string

text \<open>\<^verbatim>\<open>lib.ReadFile(ctx, path)\<close>: the bytes of the file, or an error.\<close>

definition ReadFile :: "world \<Rightarrow> string \<Rightarrow> string option" where
  "ReadFile w path = files w path"

text \<open>\<^verbatim>\<open>update dashboard set title = ?, slug = ?, data = ? where id = ?\<close>\<close>

definition exec_update :: "string \<Rightarrow> string \<Rightarrow> string \<Rightarrow> int \<Rightarrow> world \<Rightarrow> world" where
  "exec_update t s d i w =
     w\<lparr>dashboard :=
         map (\<lambda>r. if row_id r = i then r\<lparr>row_title := t, row_slug := s, row_data := d\<rparr> else r)
           (dashboard w),
       out := out w @ [DbUpdate t s d i]\<rparr>"

text \<open>The decimal digits of a number, as \<^verbatim>\<open>%v\<close> prints \<^verbatim>\<open>time.Now().UnixNano()\<close>.\<close>

definition digit :: "nat \<Rightarrow> char" where
  "digit d = ''0123456789'' ! d"

fun digits :: "nat \<Rightarrow> string" where
  "digits n = (if n < 10 then [digit n] else digits (n div 10) @ [digit (n mod 10)])"

declare digits.simps [simp del]

text \<open>
  \<^verbatim>\<open>backupFunc\<close>, the closure both imports define: it writes \<open>contents\<close>, the bytes of
  the database file read when the import started, to \<^verbatim>\<open>dbFile.<nanoseconds>\<close>.
\<close>

definition backupFunc :: "ext \<Rightarrow> string \<Rightarrow> string \<Rightarrow> world \<Rightarrow> world" where
  "backupFunc x dbFile contents w =
     (let bfn = dbFile @ ''.'' @ digits (UnixNano x)
      in printf (MsgBackedUp bfn)
           (w\<lparr>files := (files w)(bfn \<mapsto> contents), out := out w @ [WriteBackup bfn contents]\<rparr>))"

text \<open>\<^verbatim>\<open>if !backedUp { backupFunc(); backedUp = true }\<close>: the world and the flag after it.\<close>

definition backup_once :: "ext \<Rightarrow> string \<Rightarrow> string \<Rightarrow> world \<times> bool \<Rightarrow> world \<times> bool" where
  "backup_once x dbFile contents s =
     (case s of (w, backedUp) \<Rightarrow>
        if \<not> backedUp then (backupFunc x dbFile contents w, True) else (w, backedUp))"

text \<open>\<^verbatim>\<open>ioutil.WriteFile(fn + ".was", data, 0644)\<close>\<close>

definition write_was :: "string \<Rightarrow> string \<Rightarrow> world \<Rightarrow> world" where
  "write_was fn d w =
     w\<lparr>files := (files w)(fn @ ''.was'' \<mapsto> d), out := out w @ [WriteSidecar (fn @ ''.was'') d]\<rparr>"

subsection \<open>importJsonsByUID\<close>

text \<open>
  A Go map with string keys is a list of pairs with distinct keys, in the order the keys
  were first stored. The first loop fills \<^verbatim>\<open>dbMap\<close> from the rows of
  \<^verbatim>\<open>select id, data, title, slug from dashboard\<close>, taken in the order of the table.
\<close>

fun load_dbMap ::
  "ext \<Rightarrow> dashboard_row list \<Rightarrow> (string \<times> dashboardData) list \<Rightarrow>
   fatal + (string \<times> dashboardData) list" where
  "load_dbMap x [] dbMap = Inr dbMap"
| "load_dbMap x (r # rs) dbMap =
     (case Unmarshal x (row_data r) zero_dashboard of
        None \<Rightarrow> Inl (UnmarshalFailed (row_data r))
      | Some dash \<Rightarrow>
          if row_title r \<noteq> Title dash then Inl (Inconsistency (row_title r) (Title dash))
          else load_dbMap x rs
                 (AList.update (UID dash)
                    \<lparr>dd_dash = dash, dd_id = row_id r, dd_title = row_title r,
                     dd_slug = row_slug r, dd_data = PrettyPrintJSON x (row_data r),
                     dd_fn = ''*'' @ row_slug r @ ''.json*''\<rparr> dbMap))"

text \<open>The second loop: \<^verbatim>\<open>for _, j := range jsons\<close>, filling \<^verbatim>\<open>jsonMap\<close>.\<close>

fun load_jsonMap ::
  "ext \<Rightarrow> world \<Rightarrow> (string \<times> dashboardData) list \<Rightarrow> string list \<Rightarrow>
   (string \<times> dashboardData) list \<Rightarrow> fatal + (string \<times> dashboardData) list" where
  "load_jsonMap x w dbMap [] jsonMap = Inr jsonMap"
| "load_jsonMap x w dbMap (j # js) jsonMap =
     (case ReadFile w j of
        None \<Rightarrow> Inl (ReadFileFailed j)
      | Some bytes \<Rightarrow>
          (case Unmarshal x bytes zero_dashboard of
             None \<Rightarrow> Inl (UnmarshalFailed bytes)
           | Some dash \<Rightarrow>
               (case map_of dbMap (UID dash) of
                  None \<Rightarrow> Inl (UIDNotFound j (UID dash) (Title dash))
                | Some dbDash \<Rightarrow>
                    (case map_of jsonMap (UID dash) of
                       Some jsonDash \<Rightarrow> Inl (DuplicateUID j dash (dd_dash jsonDash))
                     | None \<Rightarrow>
                         load_jsonMap x w dbMap js
                           (AList.update (UID dash)
                              \<lparr>dd_dash = dash, dd_id = dd_id dbDash, dd_title = Title dash,
                               dd_slug = Slugify x (Title dash),
                               dd_data = PrettyPrintJSON x bytes, dd_fn = j\<rparr> jsonMap)))))"

text \<open>The zero value \<^verbatim>\<open>dbMap[uid]\<close> gives for a key the map does not have.\<close>

definition zero_dashboardData :: dashboardData where
  "zero_dashboardData =
     \<lparr>dd_dash = zero_dashboard, dd_id = 0, dd_title = [], dd_slug = [], dd_data = [], dd_fn = []\<rparr>"

text \<open>
  The body of the third loop, \<^verbatim>\<open>for uid, dd := range jsonMap\<close>. Its state is the world,
  \<^verbatim>\<open>backedUp\<close> and \<^verbatim>\<open>nImp\<close>.
\<close>

definition import_uid ::
  "ext \<Rightarrow> Ctx \<Rightarrow> string \<Rightarrow> string \<Rightarrow> (string \<times> dashboardData) list \<Rightarrow> string \<Rightarrow> dashboardData \<Rightarrow>
   world \<times> bool \<times> nat \<Rightarrow> world \<times> bool \<times> nat" where
  "import_uid x ctx dbFile contents dbMap uid dd0 s =
     (case s of (w, backedUp, nImp) \<Rightarrow>
        let ddWas = (case map_of dbMap uid of Some d \<Rightarrow> d | None \<Rightarrow> zero_dashboardData);
            w1 = (if Debug ctx > 1 then printf (MsgUIDCompare dd0 ddWas) w else w)
        in (case updateTags x ctx (dd_id dd0) (Tags (dd_dash dd0))
                   (UID (dd_dash dd0) @ '' '' @ Title (dd_dash dd0)) w1 of
              (updated, tags, w2) \<Rightarrow>
                let dd = dd0\<lparr>dd_dash := (dd_dash dd0)\<lparr>Tags := tags\<rparr>\<rparr>
                in if Title (dd_dash ddWas) = Title (dd_dash dd) \<and> dd_slug ddWas = dd_slug dd
                      \<and> dd_data ddWas = dd_data dd
                   then (if updated
                         then (case backup_once x dbFile contents (w2, backedUp) of
                                 (w3, b) \<Rightarrow> (w3, b, nImp + 1))
                         else (w2, backedUp, nImp))
                   else
                     let w3 = exec_update (Title (dd_dash dd)) (dd_slug dd) (dd_data dd) (dd_id dd) w2;
                         w4 = (if Debug ctx > 0
                               then printf (MsgUIDUpdatedDebug (dd_fn dd) uid updated dd ddWas) w3
                               else printf (MsgUIDUpdated (dd_fn dd) uid (Title (dd_dash ddWas))
                                              (Title (dd_dash dd)) (dd_slug ddWas) (dd_slug dd) updated
                                              (Tags (dd_dash dd)) (length (dd_data ddWas))
                                              (length (dd_data dd))) w3);
                         w5 = write_was (dd_fn dd) (dd_data ddWas) w4
                     in (case backup_once x dbFile contents (w5, backedUp) of
                           (w6, b) \<Rightarrow> (w6, b, nImp + 1))))"

text \<open>One visit of the third loop: the key \<open>uid\<close> with the value \<^verbatim>\<open>jsonMap\<close> has for it.\<close>

definition visit_uid ::
  "ext \<Rightarrow> Ctx \<Rightarrow> string \<Rightarrow> string \<Rightarrow> (string \<times> dashboardData) list \<Rightarrow>
   (string \<times> dashboardData) list \<Rightarrow> string \<Rightarrow> world \<times> bool \<times> nat \<Rightarrow> world \<times> bool \<times> nat" where
  "visit_uid x ctx dbFile contents dbMap jsonMap uid s =
     (case map_of jsonMap uid of
        Some dd \<Rightarrow> import_uid x ctx dbFile contents dbMap uid dd s
      | None \<Rightarrow> s)"

definition importJsonsByUID ::
  "ext \<Rightarrow> Ctx \<Rightarrow> string \<Rightarrow> string list \<Rightarrow> world \<Rightarrow> fatal option \<times> world" where
  "importJsonsByUID x ctx dbFile jsons w =
     (case ReadFile w dbFile of
        None \<Rightarrow> (Some (ReadFileFailed dbFile), w)
      | Some contents \<Rightarrow>
          (case load_dbMap x (dashboard w) [] of
             Inl e \<Rightarrow> (Some e, w)
           | Inr dbMap \<Rightarrow>
               (case load_jsonMap x w dbMap jsons [] of
                  Inl e \<Rightarrow> (Some e, w)
                | Inr jsonMap \<Rightarrow>
                    (case fold (visit_uid x ctx dbFile contents dbMap jsonMap)
                               (map_range x (map fst jsonMap)) (w, False, 0) of
                       (w', backedUp, nImp) \<Rightarrow>
                         (None,
                          printf (MsgUIDSummary (length dbMap) (length jsonMap) nImp) w')))))"

subsection \<open>importJsonsByTitle\<close>

text \<open>\<^verbatim>\<open>strings.Split(s, ";")\<close>.\<close>

fun Split_semicolon :: "string \<Rightarrow> string list" where
  "Split_semicolon [] = [[]]"
| "Split_semicolon (c # cs) =
     (if c = CHR '';'' then [] # Split_semicolon cs
      else (case Split_semicolon cs of
              [] \<Rightarrow> [[c]]
            | p # ps \<Rightarrow> (c # p) # ps))"

text \<open>
  The body of \<^verbatim>\<open>for i, jdata := range jsons\<close>. Its state is the world, \<^verbatim>\<open>backedUp\<close>, and
  the variables \<^verbatim>\<open>dash\<close> and \<^verbatim>\<open>dash2\<close>, which are declared before the loop and so
  keep, from one item to the next, the fields a document does not set.
  \<^verbatim>\<open>select id, data, slug from dashboard where title = ?\<close> gives the rows with that title
  in the order of the table, and the scan loop keeps the last of them.
\<close>

definition import_title ::
  "ext \<Rightarrow> Ctx \<Rightarrow> string \<Rightarrow> string \<Rightarrow> nat \<Rightarrow> string \<Rightarrow>
   world \<times> bool \<times> dashboard_t \<times> dashboard_t \<Rightarrow>
   fatal option \<times> world \<times> bool \<times> dashboard_t \<times> dashboard_t" where
  "import_title x ctx dbFile contents i jdata s =
     (case s of (w, backedUp, dash0, dash20) \<Rightarrow>
        let ary = Split_semicolon jdata;
            j = hd ary;
            l = length ary
        in if l \<noteq> 1 \<and> l \<noteq> 3 then (Some BadItem, s)
           else
             let w1 = printf (MsgImporting (i + 1) j ary) w
             in (case ReadFile w1 j of
                   None \<Rightarrow> (Some (ReadFileFailed j), w1, backedUp, dash0, dash20)
                 | Some bytes \<Rightarrow>
                     (case Unmarshal x bytes dash0 of
                        None \<Rightarrow> (Some (UnmarshalFailed bytes), w1, backedUp, dash0, dash20)
                      | Some dash \<Rightarrow>
                          let dashTitle = (if length ary > 1 then ary ! 1 else Title dash)
                          in (case filter (\<lambda>r. row_title r = dashTitle) (dashboard w1) of
                                [] \<Rightarrow> (Some (TitleNotFound dashTitle), w1, backedUp, dash, dash20)
                              | r0 # rs \<Rightarrow>
                                  let r = last (r0 # rs);
                                      id' = row_id r;
                                      data = row_data r;
                                      slug = row_slug r
                                  in (case Unmarshal x data dash20 of
                                        None \<Rightarrow> (Some (UnmarshalFailed data), w1, backedUp, dash, dash20)
                                      | Some dash2 \<Rightarrow>
                                          if UID dash \<noteq> UID dash2
                                          then (None, printf (MsgUIDMismatch (UID dash) (UID dash2)) w1,
                                                backedUp, dash, dash2)
                                          else
                                            let dashSlug = (if length ary > 2 then ary ! 2 else slug);
                                                w2 = exec_update (Title dash) dashSlug bytes id' w1
                                            in (case updateTags x ctx id' (Tags dash)
                                                       (UID dash @ '' '' @ Title dash) w2 of
                                                  (updated, tags, w3) \<Rightarrow>
                                                    let w4 = (if Debug ctx > 0
                                                              then printf (MsgTitleUpdatedDebug dashTitle
                                                                     (Title dash) slug dashSlug updated tags
                                                                     data bytes) w3
                                                              else printf (MsgTitleUpdated dashTitle
                                                                     (Title dash) slug dashSlug updated tags)
                                                                     w3);
                                                        w5 = write_was j (PrettyPrintJSON x data) w4
                                                    in (case backup_once x dbFile contents (w5, backedUp) of
                                                          (w6, b) \<Rightarrow>
                                                            (None, w6, b, dash\<lparr>Tags := tags\<rparr>, dash2))))))))"

fun import_titles ::
  "ext \<Rightarrow> Ctx \<Rightarrow> string \<Rightarrow> string \<Rightarrow> nat \<Rightarrow> string list \<Rightarrow>
   world \<times> bool \<times> dashboard_t \<times> dashboard_t \<Rightarrow>
   fatal option \<times> world \<times> bool \<times> dashboard_t \<times> dashboard_t" where
  "import_titles x ctx dbFile contents i [] s = (None, s)"
| "import_titles x ctx dbFile contents i (jdata # rest) s =
     (case import_title x ctx dbFile contents i jdata s of
        (Some e, s') \<Rightarrow> (Some e, s')
      | (None, s') \<Rightarrow> import_titles x ctx dbFile contents (i + 1) rest s')"

definition importJsonsByTitle ::
  "ext \<Rightarrow> Ctx \<Rightarrow> string \<Rightarrow> string list \<Rightarrow> world \<Rightarrow> fatal option \<times> world" where
  "importJsonsByTitle x ctx dbFile jsons w =
     (case ReadFile w dbFile of
        None \<Rightarrow> (Some (ReadFileFailed dbFile), w)
      | Some contents \<Rightarrow>
          (case import_titles x ctx dbFile contents 0 jsons
                  (w, False, zero_dashboard, zero_dashboard) of
             (e, w', s') \<Rightarrow> (e, w')))"

subsection \<open>main\<close>

text \<open>
  The branch of \<^verbatim>\<open>main\<close> for a database file with a list of JSONs:
  \<^verbatim>\<open>if ctx.UIDMode { importJsonsByUID(...) } else { importJsonsByTitle(...) }\<close>.
\<close>

definition import_jsons ::
  "ext \<Rightarrow> Ctx \<Rightarrow> string \<Rightarrow> string list \<Rightarrow> world \<Rightarrow> fatal option \<times> world" where
  "import_jsons x ctx dbFile jsons w =
     (if UIDMode ctx then importJsonsByUID x ctx dbFile jsons w
      else importJsonsByTitle x ctx dbFile jsons w)"

section \<open>What one step of an import may do\<close>

text \<open>
  The test of \<^verbatim>\<open>importJsonsByUID\<close> for a document that needs no update: title, slug
  and pretty-printed data are those \<^verbatim>\<open>dbMap\<close> has for its uid.
\<close>

definition uid_same :: "(string \<times> dashboardData) list \<Rightarrow> string \<Rightarrow> dashboardData \<Rightarrow> bool" where
  "uid_same dbMap uid dd =
     (let ddWas = (case map_of dbMap uid of Some d \<Rightarrow> d | None \<Rightarrow> zero_dashboardData)
      in Title (dd_dash ddWas) = Title (dd_dash dd) \<and> dd_slug ddWas = dd_slug dd
         \<and> dd_data ddWas = dd_data dd)"

text \<open>The uid of the document in the file \<open>j\<close>, when the file can be read and parsed.\<close>

definition doc_uid :: "ext \<Rightarrow> world \<Rightarrow> string \<Rightarrow> string option" where
  "doc_uid x w j =
     (case ReadFile w j of
        None \<Rightarrow> None
      | Some bytes \<Rightarrow> map_option UID (Unmarshal x bytes zero_dashboard))"


text \<open>
  The relation between the world and \<^verbatim>\<open>backedUp\<close> before and after a part of an import,
  used as the invariant of both loops: the part has added events to those already there;
  it has written the backup, with the bytes \<open>c\<close> under the name \<open>bfn\<close>, exactly when it
  has set \<^verbatim>\<open>backedUp\<close>, not before its first trigger and, when \<^verbatim>\<open>backedUp\<close> was not
  set before, as the work of its first changed item; \<^verbatim>\<open>backedUp\<close> is set after it
  exactly when it was set before or the part holds a trigger; and a part that writes to
  the database holds a trigger.
\<close>

definition step_ok :: "string \<Rightarrow> string \<Rightarrow> world \<times> bool \<Rightarrow> world \<times> bool \<Rightarrow> bool" where
  "step_ok bfn c s s' =
     (case s of (w, b) \<Rightarrow> case s' of (w', b') \<Rightarrow>
        out w' = out w @ emitted w w' \<and>
        backups (emitted w w') = (if b' \<and> \<not> b then [WriteBackup bfn c] else []) \<and>
        backup_after_trigger (emitted w w') \<and>
        (b \<or> first_change_only (emitted w w')) \<and>
        b' = (b \<or> filter is_trigger (emitted w w') \<noteq> []) \<and>
        (db_writes (emitted w w') \<noteq> [] \<longrightarrow> filter is_trigger (emitted w w') \<noteq> []))"

section \<open>The documents of the examples\<close>

text \<open>
  The concrete runs below use the document of the specification's example, a database
  row for the same dashboard with other tags, and a document whose title is that of the
  row and whose uid is not.
\<close>

definition cpu_json :: string where
  \<open>cpu_json = ''{"title":"CPU","uid":"abc123","tags":["infra","perf"]}''\<close>

definition cpu_row_data :: string where
  \<open>cpu_row_data = ''{"title":"CPU","uid":"abc123","tags":["perf","net"]}''\<close>

definition stale_json :: string where
  \<open>stale_json = ''{"title":"CPU","uid":"zzz999"}''\<close>

text \<open>
  The pretty-printed forms: \<^verbatim>\<open>lib.PrettyPrintJSON\<close> is not in this file; these are the
  two-space indented forms with sorted keys of the three documents.
\<close>

definition cpu_json_pretty :: string where
  \<open>cpu_json_pretty =
     ''{\<newline>  "tags": [\<newline>    "infra",\<newline>    "perf"\<newline>  ],\<newline>  "title": "CPU",\<newline>  "uid": "abc123"\<newline>}''\<close>

definition cpu_row_pretty :: string where
  \<open>cpu_row_pretty =
     ''{\<newline>  "tags": [\<newline>    "perf",\<newline>    "net"\<newline>  ],\<newline>  "title": "CPU",\<newline>  "uid": "abc123"\<newline>}''\<close>

definition stale_json_pretty :: string where
  \<open>stale_json_pretty = ''{\<newline>  "title": "CPU",\<newline>  "uid": "zzz999"\<newline>}''\<close>

text \<open>
  The outside functions, restricted to these documents and their pretty-printed forms:
  \<^verbatim>\<open>json.Unmarshal\<close> sets the fields a document has (the third has no tags and keeps
  those of the value it is given) and fails on other bytes; the pretty-printer and the
  slug function are tables (a pretty-printed form is its own pretty-printed form; no
  example gives them an argument outside the table, where they return it as it is); the
  keys of a map are visited in the order given; the clock reads 1540000000 seconds.
\<close>

definition demo_Unmarshal :: "string \<Rightarrow> dashboard_t \<Rightarrow> dashboard_t option" where
  "demo_Unmarshal bytes d =
     (if bytes = cpu_json \<or> bytes = cpu_json_pretty
      then Some \<lparr>Title = ''CPU'', UID = ''abc123'', Tags = [''infra'', ''perf'']\<rparr>
      else if bytes = cpu_row_data \<or> bytes = cpu_row_pretty
      then Some \<lparr>Title = ''CPU'', UID = ''abc123'', Tags = [''perf'', ''net'']\<rparr>
      else if bytes = stale_json \<or> bytes = stale_json_pretty
      then Some (d\<lparr>Title := ''CPU'', UID := ''zzz999''\<rparr>)
      else None)"

definition demo_PrettyPrintJSON :: "string \<Rightarrow> string" where
  "demo_PrettyPrintJSON bytes =
     (if bytes = cpu_json then cpu_json_pretty
      else if bytes = cpu_row_data then cpu_row_pretty
      else if bytes = stale_json then stale_json_pretty
      else bytes)"

definition demo_Slugify :: "string \<Rightarrow> string" where
  "demo_Slugify t = (if t = ''CPU'' then ''cpu'' else t)"

definition demo_ext :: ext where
  "demo_ext =
     \<lparr>Unmarshal = demo_Unmarshal, PrettyPrintJSON = demo_PrettyPrintJSON,
      Slugify = demo_Slugify, map_range = (\<lambda>ks. ks), UnixNano = 1540000000000000000\<rparr>"

definition uid_ctx :: Ctx where
  "uid_ctx = \<lparr>Debug = 0, UIDMode = True\<rparr>"

definition title_ctx :: Ctx where
  "title_ctx = \<lparr>Debug = 0, UIDMode = False\<rparr>"

text \<open>
  The world of the specification's example: the dashboard CPU with the tags perf and net
  in the database, and the three files. The bytes of the database file stand for
  SQLite's encoding of the tables, which is outside the model.
\<close>

definition demo_files :: "string \<rightharpoonup> string" where
  "demo_files =
     [''grafana.db'' \<mapsto> ''SQLite format 3'', ''cpu.json'' \<mapsto> cpu_json,
      ''stale.json'' \<mapsto> stale_json]"

definition demo_world :: world where
  "demo_world =
     \<lparr>files = demo_files,
      dashboard = [\<lparr>row_id = 1, row_title = ''CPU'', row_slug = ''cpu'', row_data = cpu_row_data\<rparr>],
      dashboard_tag = [(1, ''perf''), (1, ''net'')],
      out = []\<rparr>"

text \<open>The same world with the row's data already that of the file \<^verbatim>\<open>cpu.json\<close>.\<close>

definition same_world :: world where
  "same_world =
     demo_world\<lparr>dashboard :=
       [\<lparr>row_id = 1, row_title = ''CPU'', row_slug = ''cpu'', row_data = cpu_json\<rparr>]\<rparr>"

section \<open>Events\<close>

lemma db_writes_append [simp]: "db_writes (xs @ ys) = db_writes xs @ db_writes ys"
  by (simp add: db_writes_def)

lemma effects_append [simp]: "effects (xs @ ys) = effects xs @ effects ys"
  by (simp add: effects_def)

lemma backups_append [simp]: "backups (xs @ ys) = backups xs @ backups ys"
  by (simp add: backups_def)

lemma db_writes_Nil [simp]: "db_writes [] = []"
  and effects_Nil [simp]: "effects [] = []"
  and backups_Nil [simp]: "backups [] = []"
  by (simp_all add: db_writes_def effects_def backups_def)

lemma db_writes_effects: "db_writes (effects es) = db_writes es"
proof -
  have "is_db_write e \<Longrightarrow> \<not> is_printf e" for e by (cases e) auto
  then show ?thesis unfolding db_writes_def effects_def filter_filter
    by (intro filter_cong) auto
qed

lemma backups_effects: "backups (effects es) = backups es"
proof -
  have "is_backup e \<Longrightarrow> \<not> is_printf e" for e by (cases e) auto
  then show ?thesis unfolding backups_def effects_def filter_filter
    by (intro filter_cong) auto
qed

lemma emitted_append: "out w' = out w @ es \<Longrightarrow> emitted w w' = es"
  by (simp add: emitted_def)

lemma emitted_self [simp]: "emitted w w = []"
  by (simp add: emitted_def)

section \<open>updateTags\<close>

lemma tag_plan_Nil [simp]: "tag_plan did A B [] = []"
  by (simp add: tag_plan_def)

lemma tag_plan_Cons: "tag_plan did A B (k # ks) = tag_plan did A B [k] @ tag_plan did A B ks"
  by (simp add: tag_plan_def)

lemma tag_plan_sort [simp]: "tag_plan did (sort A) B ks = tag_plan did A B ks"
  by (simp add: tag_plan_def cong: if_cong)

lemma db_writes_tag_plan [simp]: "db_writes (tag_plan did A B ks) = tag_plan did A B ks"
  by (induction ks) (simp_all add: tag_plan_def db_writes_def)

lemma backups_tag_plan [simp]: "backups (tag_plan did A B ks) = []"
  by (induction ks) (simp_all add: tag_plan_def backups_def)

lemma tag_plan_same_sets: "set A = set B \<Longrightarrow> tag_plan did A B ks = []"
  by (induction ks) (simp_all add: tag_plan_def)

lemma sync_tag_cases:
  "sync_tag ctx did info sD sJ A B tag (w, nI, nD) =
     (if tag \<in> set A \<and> tag \<notin> set B then
        ((if Debug ctx > 0 then printf (MsgTagInserted info did sD sJ tag) (exec_insert_tag did tag w)
          else exec_insert_tag did tag w), nI + 1, nD)
      else if tag \<notin> set A \<and> tag \<in> set B then
        ((if Debug ctx > 0 then printf (MsgTagDeleted info did sD sJ tag) (exec_delete_tag did tag w)
          else exec_delete_tag did tag w), nI, nD + 1)
      else (w, nI, nD))"
  by (simp add: sync_tag_def Let_def)

lemma sync_tag_out:
  "sync_tag ctx did info sD sJ A B tag (w, nI, nD) = (w', nI', nD') \<Longrightarrow>
   \<exists>es. out w' = out w @ es \<and> effects es = tag_plan did A B [tag] \<and> filter is_trigger es = []"
  by (auto simp: sync_tag_cases tag_plan_def printf_def exec_insert_tag_def exec_delete_tag_def
      effects_def split: if_splits)

lemma fold_sync_out:
  "fold (sync_tag ctx did info sD sJ A B) ks (w, nI, nD) = (w', nI', nD') \<Longrightarrow>
   \<exists>es. out w' = out w @ es \<and> effects es = tag_plan did A B ks \<and> filter is_trigger es = []"
proof (induction ks arbitrary: w nI nD)
  case Nil
  then show ?case by (simp add: effects_def)
next
  case (Cons k ks)
  obtain w1 nI1 nD1 where s1: "sync_tag ctx did info sD sJ A B k (w, nI, nD) = (w1, nI1, nD1)"
    by (metis prod_cases3)
  from sync_tag_out[OF s1] obtain es1 where
    e1: "out w1 = out w @ es1" "effects es1 = tag_plan did A B [k]" "filter is_trigger es1 = []"
    by blast
  from Cons.prems s1 have "fold (sync_tag ctx did info sD sJ A B) ks (w1, nI1, nD1) = (w', nI', nD')"
    by simp
  from Cons.IH[OF this] obtain es2 where
    e2: "out w' = out w1 @ es2" "effects es2 = tag_plan did A B ks" "filter is_trigger es2 = []"
    by blast
  have "out w' = out w @ (es1 @ es2)" using e1 e2 by simp
  moreover have "effects (es1 @ es2) = tag_plan did A B (k # ks)"
    using e1 e2 tag_plan_Cons[of did A B k ks] by simp
  moreover have "filter is_trigger (es1 @ es2) = []" using e1 e2 by simp
  ultimately show ?case by blast
qed

lemma sync_tag_frame:
  "sync_tag ctx did info sD sJ A B tag (w, nI, nD) = (w', nI', nD') \<Longrightarrow>
   files w' = files w \<and> dashboard w' = dashboard w"
  by (auto simp: sync_tag_cases printf_def exec_insert_tag_def exec_delete_tag_def split: if_splits)

lemma fold_sync_frame:
  "fold (sync_tag ctx did info sD sJ A B) ks (w, nI, nD) = (w', nI', nD') \<Longrightarrow>
   files w' = files w \<and> dashboard w' = dashboard w"
proof (induction ks arbitrary: w nI nD)
  case Nil
  then show ?case by simp
next
  case (Cons k ks)
  obtain w1 nI1 nD1 where s1: "sync_tag ctx did info sD sJ A B k (w, nI, nD) = (w1, nI1, nD1)"
    by (metis prod_cases3)
  from Cons.prems s1 have "fold (sync_tag ctx did info sD sJ A B) ks (w1, nI1, nD1) = (w', nI', nD')"
    by simp
  from Cons.IH[OF this] sync_tag_frame[OF s1] show ?case by simp
qed

lemma fold_sync_same_sets:
  "set A = set B \<Longrightarrow> fold (sync_tag ctx did info sD sJ A B) ks (w, nI, nD) = (w, nI, nD)"
  by (induction ks) (simp_all add: sync_tag_cases)

lemma tag_rows_insert:
  "tag_rows (exec_insert_tag did tag w) d' =
     (if d' = did then tag_rows w d' @ [tag] else tag_rows w d')"
  by (simp add: exec_insert_tag_def tag_rows_def)

lemma tag_rows_delete:
  "tag_rows (exec_delete_tag did tag w) d' =
     (if d' = did then filter (\<lambda>t. t \<noteq> tag) (tag_rows w d') else tag_rows w d')"
proof -
  have "tag_rows (exec_delete_tag did tag w) d' =
        map snd (filter (\<lambda>r. fst r = d' \<and> \<not> (fst r = did \<and> snd r = tag)) (dashboard_tag w))"
    by (simp add: exec_delete_tag_def tag_rows_def conj_commute)
  also have "\<dots> = (if d' = did then filter (\<lambda>t. t \<noteq> tag) (tag_rows w d') else tag_rows w d')"
    by (induction "dashboard_tag w" arbitrary: w)
       (auto simp: tag_rows_def filter_map comp_def intro!: filter_cong arg_cong[where f="map snd"])
  finally show ?thesis .
qed

lemma tag_rows_printf [simp]: "tag_rows (printf m w) d = tag_rows w d"
  by (simp add: printf_def tag_rows_def)

lemma sync_tag_rows:
  "sync_tag ctx did info sD sJ A B tag (w, nI, nD) = (w', nI', nD') \<Longrightarrow>
   set (tag_rows w' did) =
     (if tag \<in> set A \<and> tag \<notin> set B then insert tag (set (tag_rows w did))
      else if tag \<notin> set A \<and> tag \<in> set B then set (tag_rows w did) - {tag}
      else set (tag_rows w did))
   \<and> (\<forall>d'. d' \<noteq> did \<longrightarrow> tag_rows w' d' = tag_rows w d')"
  by (auto simp: sync_tag_cases tag_rows_insert tag_rows_delete split: if_splits)

lemma fold_sync_rows:
  "fold (sync_tag ctx did info sD sJ A B) ks (w, nI, nD) = (w', nI', nD') \<Longrightarrow>
   set (tag_rows w' did) =
     (set (tag_rows w did) - {t \<in> set ks. t \<notin> set A \<and> t \<in> set B})
       \<union> {t \<in> set ks. t \<in> set A \<and> t \<notin> set B}
   \<and> (\<forall>d'. d' \<noteq> did \<longrightarrow> tag_rows w' d' = tag_rows w d')"
proof (induction ks arbitrary: w nI nD)
  case Nil
  then show ?case by simp
next
  case (Cons k ks)
  obtain w1 nI1 nD1 where s1: "sync_tag ctx did info sD sJ A B k (w, nI, nD) = (w1, nI1, nD1)"
    by (metis prod_cases3)
  from Cons.prems s1 have "fold (sync_tag ctx did info sD sJ A B) ks (w1, nI1, nD1) = (w', nI', nD')"
    by simp
  from Cons.IH[OF this] sync_tag_rows[OF s1] show ?case by (auto split: if_splits)
qed

lemma mset_tag_plan_cong:
  assumes "mset ks = mset ks'"
  shows "mset (tag_plan did A B ks) = mset (tag_plan did A B ks')"
proof -
  have "mset (concat (map f ks)) = (\<Sum>k\<in>#mset ks. mset (f k))"
    for f :: "string \<Rightarrow> event list" and ks
    by (induction ks) auto
  then show ?thesis using assms by (simp add: tag_plan_def)
qed

lemma mset_tag_plan_distinct:
  "distinct ks \<Longrightarrow>
   mset (tag_plan did A B ks) =
     image_mset (DbInsertTag did) (mset_set {t \<in> set ks. t \<in> set A \<and> t \<notin> set B}) +
     image_mset (DbDeleteTag did) (mset_set {t \<in> set ks. t \<notin> set A \<and> t \<in> set B})"
proof (induction ks)
  case Nil
  then show ?case by simp
next
  case (Cons k ks)
  have ins: "{t \<in> set (k # ks). t \<in> set A \<and> t \<notin> set B} =
        (if k \<in> set A \<and> k \<notin> set B then insert k {t \<in> set ks. t \<in> set A \<and> t \<notin> set B}
         else {t \<in> set ks. t \<in> set A \<and> t \<notin> set B})"
    by auto
  have del: "{t \<in> set (k # ks). t \<notin> set A \<and> t \<in> set B} =
        (if k \<notin> set A \<and> k \<in> set B then insert k {t \<in> set ks. t \<notin> set A \<and> t \<in> set B}
         else {t \<in> set ks. t \<notin> set A \<and> t \<in> set B})"
    by auto
  from Cons have IH: "mset (tag_plan did A B ks) =
     image_mset (DbInsertTag did) (mset_set {t \<in> set ks. t \<in> set A \<and> t \<notin> set B}) +
     image_mset (DbDeleteTag did) (mset_set {t \<in> set ks. t \<notin> set A \<and> t \<in> set B})"
    and k: "k \<notin> set ks" by simp_all
  show ?case
    unfolding tag_plan_Cons[of did A B k ks] ins del
    using k by (simp add: IH) (simp add: tag_plan_def)
qed

lemma updateTags_same:
  "Join (sort A) '','' = Join (query_tags w did) '','' \<Longrightarrow>
   updateTags x ctx did A info w = (False, sort A, w)"
  by (simp add: updateTags_def Let_def)

lemma updateTags_differ:
  assumes "Join (sort A) '','' \<noteq> Join (query_tags w did) '',''"
  shows "\<exists>w1 nI nD.
     fold (sync_tag ctx did info (Join (query_tags w did) '','') (Join (sort A) '','') (sort A)
             (query_tags w did))
       (map_range x (remdups (sort A @ query_tags w did))) (w, 0, 0) = (w1, nI, nD) \<and>
     updateTags x ctx did A info w =
       (True, sort A,
        printf (MsgTagsUpdated info did (Join (query_tags w did) '','') (Join (sort A) '','') nI nD) w1)"
  using assms by (simp add: updateTags_def Let_def split: prod.splits)

lemma updateTags_effect:
  assumes r: "updateTags x ctx did A info w = (upd, A', w')"
  defines "B \<equiv> query_tags w did"
  defines "ks \<equiv> map_range x (remdups (sort A @ B))"
  shows "upd = (Join (sort A) '','' \<noteq> Join B '','')"
    and "A' = sort A"
    and "files w' = files w"
    and "dashboard w' = dashboard w"
    and "out w' = out w @ emitted w w'"
    and "effects (emitted w w') = (if upd then tag_plan did A B ks else [])"
    and "(filter is_trigger (emitted w w') \<noteq> []) = upd"
    and "d' \<noteq> did \<Longrightarrow> tag_rows w' d' = tag_rows w d'"
    and "set (tag_rows w' did) =
          (if upd then (set B - {t \<in> set ks. t \<notin> set A \<and> t \<in> set B})
                        \<union> {t \<in> set ks. t \<in> set A \<and> t \<notin> set B}
           else set B)"
proof -
  have sB: "set B = set (tag_rows w did)" by (simp add: B_def query_tags_def)
  show "upd = (Join (sort A) '','' \<noteq> Join B '','')" "A' = sort A"
    using r by (auto simp: updateTags_def Let_def B_def split: if_splits prod.splits)
  have "files w' = files w \<and> dashboard w' = dashboard w \<and> out w' = out w @ emitted w w' \<and>
        effects (emitted w w') = (if upd then tag_plan did A B ks else []) \<and>
        (filter is_trigger (emitted w w') \<noteq> []) = upd \<and>
        (d' \<noteq> did \<longrightarrow> tag_rows w' d' = tag_rows w d') \<and>
        set (tag_rows w' did) =
          (if upd then (set B - {t \<in> set ks. t \<notin> set A \<and> t \<in> set B})
                        \<union> {t \<in> set ks. t \<in> set A \<and> t \<notin> set B}
           else set B)"
  proof (cases "Join (sort A) '','' = Join B '',''")
    case True
    then have "updateTags x ctx did A info w = (False, sort A, w)"
      unfolding B_def by (rule updateTags_same)
    with r have "upd = False" "w' = w" by simp_all
    then show ?thesis by (simp add: sB effects_def)
  next
    case False
    from updateTags_differ[OF False[unfolded B_def], of ctx info x] r
    obtain w1 nI nD where
      f: "fold (sync_tag ctx did info (Join B '','') (Join (sort A) '','') (sort A) B) ks (w, 0, 0)
            = (w1, nI, nD)"
      and u: "upd = True"
      and w': "w' = printf (MsgTagsUpdated info did (Join B '','') (Join (sort A) '','') nI nD) w1"
      unfolding B_def ks_def by auto
    from fold_sync_out[OF f] obtain es where
      es: "out w1 = out w @ es" "effects es = tag_plan did A B ks" "filter is_trigger es = []"
      by auto
    have o: "out w' =
        out w @ (es @ [Printf (MsgTagsUpdated info did (Join B '','') (Join (sort A) '','') nI nD)])"
      using es w' by (simp add: printf_def)
    have e: "emitted w w' =
        es @ [Printf (MsgTagsUpdated info did (Join B '','') (Join (sort A) '','') nI nD)]"
      using o by (rule emitted_append)
    have fr: "files w' = files w \<and> dashboard w' = dashboard w"
      using fold_sync_frame[OF f] w' by (simp add: printf_def)
    have rows: "set (tag_rows w' did) =
        (set B - {t \<in> set ks. t \<notin> set A \<and> t \<in> set B}) \<union> {t \<in> set ks. t \<in> set A \<and> t \<notin> set B}"
       "d' \<noteq> did \<longrightarrow> tag_rows w' d' = tag_rows w d'"
      using fold_sync_rows[OF f] w' sB by simp_all
    show ?thesis using u fr o e es rows by (simp add: effects_def)
  qed
  then show "files w' = files w" "dashboard w' = dashboard w" "out w' = out w @ emitted w w'"
    "effects (emitted w w') = (if upd then tag_plan did A B ks else [])"
    "(filter is_trigger (emitted w w') \<noteq> []) = upd"
    "d' \<noteq> did \<Longrightarrow> tag_rows w' d' = tag_rows w d'"
    "set (tag_rows w' did) =
          (if upd then (set B - {t \<in> set ks. t \<notin> set A \<and> t \<in> set B})
                        \<union> {t \<in> set ks. t \<in> set A \<and> t \<notin> set B}
           else set B)"
    by simp_all
qed

lemma updateTags_reports:
  assumes r: "updateTags x ctx did A info w = (upd, A', w')"
  shows "length (filter is_tags_report (emitted w w')) \<le> 1"
proof (cases "Join (sort A) '','' = Join (query_tags w did) '',''")
  case True
  from updateTags_same[OF True, of x ctx info] r have "w' = w" by simp
  then show ?thesis by simp
next
  case False
  from updateTags_differ[OF False, of ctx info x] r
  obtain w1 nI nD where
    f: "fold (sync_tag ctx did info (Join (query_tags w did) '','') (Join (sort A) '','') (sort A)
               (query_tags w did))
          (map_range x (remdups (sort A @ query_tags w did))) (w, 0, 0) = (w1, nI, nD)"
    and w': "w' = printf (MsgTagsUpdated info did (Join (query_tags w did) '','')
                    (Join (sort A) '','') nI nD) w1"
    by auto
  from fold_sync_out[OF f] obtain es where
    es: "out w1 = out w @ es" "filter is_trigger es = []" by auto
  have "is_tags_report e \<Longrightarrow> is_trigger e" for e
    by (cases e rule: is_tags_report.cases) auto
  with es(2) have nr: "filter is_tags_report es = []"
    by (auto simp: filter_empty_conv)
  have "out w' = out w @ (es @ [Printf (MsgTagsUpdated info did (Join (query_tags w did) '','')
                    (Join (sort A) '','') nI nD)])"
    using es(1) w' by (simp add: printf_def)
  from emitted_append[OF this] nr show ?thesis by simp
qed

section \<open>The primitive steps\<close>

lemma out_printf [simp]: "out (printf m w) = out w @ [Printf m]"
  and files_printf [simp]: "files (printf m w) = files w"
  and dashboard_printf [simp]: "dashboard (printf m w) = dashboard w"
  and dashboard_tag_printf [simp]: "dashboard_tag (printf m w) = dashboard_tag w"
  by (simp_all add: printf_def)

lemma out_exec_update [simp]: "out (exec_update t s d i w) = out w @ [DbUpdate t s d i]"
  and files_exec_update [simp]: "files (exec_update t s d i w) = files w"
  and dashboard_tag_exec_update [simp]: "dashboard_tag (exec_update t s d i w) = dashboard_tag w"
  and dashboard_exec_update: "dashboard (exec_update t s d i w) =
      map (\<lambda>r. if row_id r = i then r\<lparr>row_title := t, row_slug := s, row_data := d\<rparr> else r)
        (dashboard w)"
  by (simp_all add: exec_update_def)

lemma out_write_was [simp]: "out (write_was fn d w) = out w @ [WriteSidecar (fn @ ''.was'') d]"
  and files_write_was: "files (write_was fn d w) = (files w)(fn @ ''.was'' \<mapsto> d)"
  and dashboard_write_was [simp]: "dashboard (write_was fn d w) = dashboard w"
  and dashboard_tag_write_was [simp]: "dashboard_tag (write_was fn d w) = dashboard_tag w"
  by (simp_all add: write_was_def)

lemma out_backupFunc [simp]:
  "out (backupFunc x dbFile c w) =
     out w @ [WriteBackup (dbFile @ ''.'' @ digits (UnixNano x)) c,
              Printf (MsgBackedUp (dbFile @ ''.'' @ digits (UnixNano x)))]"
  and dashboard_backupFunc [simp]: "dashboard (backupFunc x dbFile c w) = dashboard w"
  and dashboard_tag_backupFunc [simp]: "dashboard_tag (backupFunc x dbFile c w) = dashboard_tag w"
  by (simp_all add: backupFunc_def Let_def)

lemma backup_once_cases:
  "backup_once x dbFile c (w, b) = (if b then (w, True) else (backupFunc x dbFile c w, True))"
  by (simp add: backup_once_def)

section \<open>The invariant\<close>

lemma backup_after_trigger_Nil [simp]: "backup_after_trigger []"
  by (simp add: backup_after_trigger_def)

lemma backup_after_trigger_Cons [simp]:
  "backup_after_trigger (e # es) = (is_trigger e \<or> (\<not> is_backup e \<and> backup_after_trigger es))"
  by (simp add: backup_after_trigger_def backups_def)

lemma backup_after_trigger_no_backups: "backups es = [] \<Longrightarrow> backup_after_trigger es"
  by (induction es) (auto simp: backups_def split: if_splits)

lemma backup_after_trigger_append:
  "backup_after_trigger (xs @ ys) =
     (if filter is_trigger xs \<noteq> [] then backup_after_trigger xs
      else backups xs = [] \<and> backup_after_trigger ys)"
  by (induction xs) (auto simp: backups_def)

lemma before_backup_simps [simp]:
  "before_backup [] = []"
  "before_backup (e # es) = (if is_backup e then [] else e # before_backup es)"
  by (simp_all add: before_backup_def)

lemma before_backup_append:
  "before_backup (xs @ ys) = (if backups xs \<noteq> [] then before_backup xs else xs @ before_backup ys)"
  by (induction xs) (auto simp: backups_def)

lemma before_backup_no_backups: "backups es = [] \<Longrightarrow> before_backup es = es"
  by (induction es) (auto simp: backups_def split: if_splits)

lemma first_change_only_Nil [simp]: "first_change_only []"
  by (simp add: first_change_only_def updated_ids_def)

lemma no_trigger_counts:
  "filter is_trigger xs = [] \<Longrightarrow> updated_ids xs = [] \<and> filter is_tags_report xs = []"
proof (induction xs)
  case Nil
  then show ?case by (simp add: updated_ids_def)
next
  case (Cons e xs)
  then have nt: "\<not> is_trigger e" and r: "filter is_trigger xs = []" by (auto split: if_splits)
  from nt have "update_id e = None \<and> \<not> is_tags_report e"
    by (cases e rule: is_trigger.cases) auto
  with Cons.IH[OF r] show ?case by (simp add: updated_ids_def)
qed


lemma first_change_only_append:
  "first_change_only (xs @ ys) =
     (if backups xs \<noteq> [] then first_change_only xs
      else length (updated_ids xs) + length (updated_ids (before_backup ys)) \<le> 1 \<and>
           length (filter is_tags_report xs) + length (filter is_tags_report (before_backup ys)) \<le> 1)"
proof -
  have "updated_ids (as @ bs) = updated_ids as @ updated_ids bs" for as bs
    by (induction as) (simp_all add: updated_ids_def split: option.splits)
  then show ?thesis by (simp add: first_change_only_def before_backup_append)
qed

lemma step_ok_refl: "step_ok bfn c (w, b) (w, b)"
  by (simp add: step_ok_def)

lemma step_okI:
  assumes "out w' = out w @ es"
    and "backups es = (if b' \<and> \<not> b then [WriteBackup bfn c] else [])"
    and "backup_after_trigger es"
    and "b \<or> first_change_only es"
    and "b' = (b \<or> filter is_trigger es \<noteq> [])"
    and "db_writes es \<noteq> [] \<longrightarrow> filter is_trigger es \<noteq> []"
  shows "step_ok bfn c (w, b) (w', b')"
  using assms emitted_append[OF assms(1)] by (simp add: step_ok_def)

lemma step_ok_trans:
  assumes "step_ok bfn c (w, b) (w1, b1)" and "step_ok bfn c (w1, b1) (w2, b2)"
  shows "step_ok bfn c (w, b) (w2, b2)"
proof -
  let ?e1 = "emitted w w1" and ?e2 = "emitted w1 w2"
  from assms have o: "out w2 = out w @ (?e1 @ ?e2)" by (simp add: step_ok_def)
  have e: "emitted w w2 = ?e1 @ ?e2" using o by (rule emitted_append)
  have fc: "b \<or> first_change_only (?e1 @ ?e2)"
  proof (cases b)
    case False
    with assms(1) have 1: "first_change_only ?e1" "b1 = (filter is_trigger ?e1 \<noteq> [])"
      "backups ?e1 = (if b1 then [WriteBackup bfn c] else [])"
      by (simp_all add: step_ok_def)
    show ?thesis
    proof (cases b1)
      case True
      with 1 show ?thesis unfolding first_change_only_append by simp
    next
      case b1: False
      with assms(2) have 2: "first_change_only ?e2" by (simp add: step_ok_def)
      from b1 1 have "filter is_trigger ?e1 = []" by simp
      from no_trigger_counts[OF this] 1(3) b1 2 show ?thesis
        unfolding first_change_only_append by (simp add: first_change_only_def)
    qed
  qed simp
  have rest: "backups (?e1 @ ?e2) = (if b2 \<and> \<not> b then [WriteBackup bfn c] else []) \<and>
        backup_after_trigger (?e1 @ ?e2) \<and>
        b2 = (b \<or> filter is_trigger (?e1 @ ?e2) \<noteq> []) \<and>
        (db_writes (?e1 @ ?e2) \<noteq> [] \<longrightarrow> filter is_trigger (?e1 @ ?e2) \<noteq> [])"
    using assms unfolding step_ok_def prod.case
    by (auto simp: backup_after_trigger_append split: if_splits)
  show ?thesis
    unfolding step_ok_def prod.case e using o fc rest by simp
qed

section \<open>importJsonsByUID: one document\<close>

lemma import_uid_unfold:
  assumes u: "updateTags x ctx (dd_id dd) (Tags (dd_dash dd))
                (UID (dd_dash dd) @ '' '' @ Title (dd_dash dd))
                (if Debug ctx > 1
                 then printf (MsgUIDCompare dd (case map_of dbMap uid of Some d \<Rightarrow> d | None \<Rightarrow> zero_dashboardData)) w
                 else w) = (upd, tags, w2)"
  defines "ddWas \<equiv> (case map_of dbMap uid of Some d \<Rightarrow> d | None \<Rightarrow> zero_dashboardData)"
  defines "same \<equiv> (Title (dd_dash ddWas) = Title (dd_dash dd) \<and> dd_slug ddWas = dd_slug dd
                      \<and> dd_data ddWas = dd_data dd)"
  defines "dd' \<equiv> dd\<lparr>dd_dash := (dd_dash dd)\<lparr>Tags := tags\<rparr>\<rparr>"
  shows "import_uid x ctx dbFile contents dbMap uid dd (w, b, n) =
     (if same then
        (if upd then (fst (backup_once x dbFile contents (w2, b)), True, n + 1) else (w2, b, n))
      else
        (fst (backup_once x dbFile contents
           (write_was (dd_fn dd) (dd_data ddWas)
             (printf (if Debug ctx > 0
                      then MsgUIDUpdatedDebug (dd_fn dd) uid upd dd' ddWas
                      else MsgUIDUpdated (dd_fn dd) uid (Title (dd_dash ddWas)) (Title (dd_dash dd))
                             (dd_slug ddWas) (dd_slug dd) upd tags (length (dd_data ddWas))
                             (length (dd_data dd)))
                (exec_update (Title (dd_dash dd)) (dd_slug dd) (dd_data dd) (dd_id dd) w2)), b)),
         True, n + 1))"
  using u unfolding import_uid_def ddWas_def same_def dd'_def
  by (auto simp: Let_def backup_once_cases split: prod.splits)


lemma updated_ids_append [simp]: "updated_ids (xs @ ys) = updated_ids xs @ updated_ids ys"
  by (induction xs) (simp_all add: updated_ids_def map_filter_simps split: option.splits)

lemma updated_ids_simps [simp]:
  "updated_ids [] = []"
  "updated_ids (DbUpdate t s d i # es) = i # updated_ids es"
  "updated_ids (DbInsertTag di tg # es) = updated_ids es"
  "updated_ids (DbDeleteTag di tg # es) = updated_ids es"
  "updated_ids (WriteBackup p c # es) = updated_ids es"
  "updated_ids (WriteSidecar p c # es) = updated_ids es"
  "updated_ids (Printf m # es) = updated_ids es"
  by (simp_all add: updated_ids_def)

lemma updated_ids_effects: "updated_ids (effects es) = updated_ids es"
  by (induction es) (auto simp: effects_def elim: is_printf.elims)

lemma updated_ids_tag_plan [simp]: "updated_ids (tag_plan did A B ks) = []"
  by (induction ks) (simp_all add: tag_plan_def)

text \<open>What a call of updateTags adds, as the loops need it.\<close>

lemma updateTags_step:
  assumes r: "updateTags x ctx did A info w = (upd, A', w')"
  shows "\<exists>es. out w' = out w @ es \<and> backups es = [] \<and> updated_ids es = [] \<and>
              (filter is_trigger es \<noteq> []) = upd \<and> (db_writes es \<noteq> [] \<longrightarrow> upd) \<and>
              length (filter is_tags_report es) \<le> 1"
proof -
  let ?es = "emitted w w'"
  note f = updateTags_effect[OF r]
  have "backups ?es = backups (effects ?es)" by (simp add: backups_effects)
  then have b: "backups ?es = []" by (simp add: f(6))
  have "updated_ids ?es = updated_ids (effects ?es)" by (simp add: updated_ids_effects)
  then have u: "updated_ids ?es = []" by (simp add: f(6))
  have "db_writes ?es = db_writes (effects ?es)" by (simp add: db_writes_effects)
  then have d: "db_writes ?es \<noteq> [] \<longrightarrow> upd" by (simp add: f(6) db_writes_def split: if_splits)
  show ?thesis using f(5) f(7) b u d updateTags_reports[OF r] by blast
qed

lemma import_uid_step:
  assumes r: "import_uid x ctx dbFile contents dbMap uid dd (w, b, n) = (w', b', n')"
  defines "ddWas \<equiv> (case map_of dbMap uid of Some d \<Rightarrow> d | None \<Rightarrow> zero_dashboardData)"
  defines "same \<equiv> (Title (dd_dash ddWas) = Title (dd_dash dd) \<and> dd_slug ddWas = dd_slug dd
                      \<and> dd_data ddWas = dd_data dd)"
  shows "step_ok (dbFile @ ''.'' @ digits (UnixNano x)) contents (w, b) (w', b')"
    and "updated_ids (emitted w w') = (if same then [] else [dd_id dd])"
    and "dashboard w' =
          (if same then dashboard w
           else map (\<lambda>r. if row_id r = dd_id dd
                          then r\<lparr>row_title := Title (dd_dash dd), row_slug := dd_slug dd,
                                 row_data := dd_data dd\<rparr>
                          else r) (dashboard w))"
proof -
  let ?w1 = "if Debug ctx > 1 then printf (MsgUIDCompare dd ddWas) w else w"
  let ?bfn = "dbFile @ ''.'' @ digits (UnixNano x)"
  obtain upd tags w2 where
    u: "updateTags x ctx (dd_id dd) (Tags (dd_dash dd))
          (UID (dd_dash dd) @ '' '' @ Title (dd_dash dd)) ?w1 = (upd, tags, w2)"
    by (metis prod_cases3)
  from updateTags_step[OF u] obtain et where
    et: "out w2 = out ?w1 @ et" "backups et = []" "updated_ids et = []"
        "(filter is_trigger et \<noteq> []) = upd" "db_writes et \<noteq> [] \<longrightarrow> upd"
        "length (filter is_tags_report et) \<le> 1"
    by blast
  have bat: "backup_after_trigger et" "before_backup et = et"
    using et(2) by (rule backup_after_trigger_no_backups, rule before_backup_no_backups)
  have d2: "dashboard w2 = dashboard w"
    using updateTags_effect(4)[OF u] by simp
  obtain p where p: "out ?w1 = out w @ p" "backups p = []" "updated_ids p = []"
      "filter is_trigger p = []" "db_writes p = []" "filter is_tags_report p = []"
    by (cases "Debug ctx > 1") (simp_all add: backups_def db_writes_def)
  note unf = import_uid_unfold[OF u[unfolded ddWas_def], of dbFile contents b n,
      folded ddWas_def, folded same_def]
  have "\<exists>es. out w' = out w @ es \<and>
          backups es = (if b' \<and> \<not> b then [WriteBackup ?bfn contents] else []) \<and>
          backup_after_trigger es \<and>
          (b \<or> first_change_only es) \<and>
          b' = (b \<or> filter is_trigger es \<noteq> []) \<and>
          (db_writes es \<noteq> [] \<longrightarrow> filter is_trigger es \<noteq> []) \<and>
          updated_ids es = (if same then [] else [dd_id dd])"
  proof (cases same)
    case True
    show ?thesis
    proof (cases upd)
      case True
      with \<open>same\<close> r unf have
        "w' = fst (backup_once x dbFile contents (w2, b))" "b' = True" by simp_all
      then show ?thesis using \<open>same\<close> True et p bat
        by (cases b) (auto simp: backup_once_cases backups_def db_writes_def backup_after_trigger_append
            first_change_only_def before_backup_append)
    next
      case False
      with \<open>same\<close> r unf have "w' = w2" "b' = b" by simp_all
      then show ?thesis using \<open>same\<close> False et p bat
        by (auto simp: backups_def db_writes_def backup_after_trigger_append
            first_change_only_def before_backup_append)
    qed
  next
    case False
    with r unf have
      "w' = fst (backup_once x dbFile contents
           (write_was (dd_fn dd) (dd_data ddWas)
             (printf (if Debug ctx > 0
                      then MsgUIDUpdatedDebug (dd_fn dd) uid upd
                             (dd\<lparr>dd_dash := (dd_dash dd)\<lparr>Tags := tags\<rparr>\<rparr>) ddWas
                      else MsgUIDUpdated (dd_fn dd) uid (Title (dd_dash ddWas)) (Title (dd_dash dd))
                             (dd_slug ddWas) (dd_slug dd) upd tags (length (dd_data ddWas))
                             (length (dd_data dd)))
                (exec_update (Title (dd_dash dd)) (dd_slug dd) (dd_data dd) (dd_id dd) w2)), b))"
      "b' = True" by simp_all
    then show ?thesis using False et p bat
      by (cases b) (auto simp: backup_once_cases backups_def db_writes_def backup_after_trigger_append
            first_change_only_def before_backup_append)
  qed
  then obtain es where es: "out w' = out w @ es"
      "backups es = (if b' \<and> \<not> b then [WriteBackup ?bfn contents] else [])"
      "backup_after_trigger es"
      "b \<or> first_change_only es"
      "b' = (b \<or> filter is_trigger es \<noteq> [])"
      "db_writes es \<noteq> [] \<longrightarrow> filter is_trigger es \<noteq> []"
      "updated_ids es = (if same then [] else [dd_id dd])"
    by blast
  show "step_ok ?bfn contents (w, b) (w', b')"
    using es(1-6) by (rule step_okI)
  show "updated_ids (emitted w w') = (if same then [] else [dd_id dd])"
    using es(7) emitted_append[OF es(1)] by simp
  show "dashboard w' =
          (if same then dashboard w
           else map (\<lambda>r. if row_id r = dd_id dd
                          then r\<lparr>row_title := Title (dd_dash dd), row_slug := dd_slug dd,
                                 row_data := dd_data dd\<rparr>
                          else r) (dashboard w))"
    using r unf d2 by (auto simp: backup_once_cases dashboard_exec_update split: if_splits)
qed

section \<open>importJsonsByUID: the third loop\<close>

lemma filter_id_map_other:
  assumes "\<And>r. row_id (g r) = row_id r" and "\<And>r. row_id r = i \<Longrightarrow> g r = r"
  shows "filter (\<lambda>r. row_id r = i) (map g rows) = filter (\<lambda>r. row_id r = i) rows"
  using assms by (induction rows) auto

lemma visit_uid_step:
  assumes r: "visit_uid x ctx dbFile contents dbMap jsonMap uid (w, b, n) = (w', b', n')"
  shows "step_ok (dbFile @ ''.'' @ digits (UnixNano x)) contents (w, b) (w', b')"
    and "(\<And>dd. map_of jsonMap uid = Some dd \<Longrightarrow> dd_id dd = i \<Longrightarrow> uid_same dbMap uid dd) \<Longrightarrow>
         i \<notin> set (updated_ids (emitted w w')) \<and>
         filter (\<lambda>r. row_id r = i) (dashboard w') = filter (\<lambda>r. row_id r = i) (dashboard w)"
proof -
  show "step_ok (dbFile @ ''.'' @ digits (UnixNano x)) contents (w, b) (w', b')"
  proof (cases "map_of jsonMap uid")
    case None
    with r show ?thesis by (simp add: visit_uid_def step_ok_refl)
  next
    case (Some dd)
    with r have "import_uid x ctx dbFile contents dbMap uid dd (w, b, n) = (w', b', n')"
      by (simp add: visit_uid_def)
    then show ?thesis by (rule import_uid_step(1))
  qed
  assume a: "\<And>dd. map_of jsonMap uid = Some dd \<Longrightarrow> dd_id dd = i \<Longrightarrow> uid_same dbMap uid dd"
  show "i \<notin> set (updated_ids (emitted w w')) \<and>
         filter (\<lambda>r. row_id r = i) (dashboard w') = filter (\<lambda>r. row_id r = i) (dashboard w)"
  proof (cases "map_of jsonMap uid")
    case None
    with r show ?thesis by (simp add: visit_uid_def)
  next
    case (Some dd)
    with r have i: "import_uid x ctx dbFile contents dbMap uid dd (w, b, n) = (w', b', n')"
      by (simp add: visit_uid_def)
    note s = import_uid_step(2,3)[OF i, folded uid_same_def[unfolded Let_def]]
    show ?thesis
    proof (cases "uid_same dbMap uid dd")
      case True
      with s show ?thesis by simp
    next
      case False
      with a[OF Some] have ne: "dd_id dd \<noteq> i" by auto
      have "filter (\<lambda>r. row_id r = i)
              (map (\<lambda>r. if row_id r = dd_id dd
                         then r\<lparr>row_title := Title (dd_dash dd), row_slug := dd_slug dd,
                                row_data := dd_data dd\<rparr>
                         else r) (dashboard w)) = filter (\<lambda>r. row_id r = i) (dashboard w)"
        using ne by (intro filter_id_map_other) auto
      with s False ne show ?thesis by simp
    qed
  qed
qed

lemma fold_visit_uid:
  assumes "fold (visit_uid x ctx dbFile contents dbMap jsonMap) ks (w, b, n) = (w', b', n')"
  shows "step_ok (dbFile @ ''.'' @ digits (UnixNano x)) contents (w, b) (w', b')"
  using assms
proof (induction ks arbitrary: w b n)
  case Nil
  then show ?case by (simp add: step_ok_refl)
next
  case (Cons k ks)
  obtain w1 b1 n1 where
    s1: "visit_uid x ctx dbFile contents dbMap jsonMap k (w, b, n) = (w1, b1, n1)"
    by (metis prod_cases3)
  with Cons.prems have
    "fold (visit_uid x ctx dbFile contents dbMap jsonMap) ks (w1, b1, n1) = (w', b', n')"
    by simp
  from visit_uid_step(1)[OF s1] Cons.IH[OF this] show ?case by (rule step_ok_trans)
qed

lemma fold_visit_uid_untouched:
  assumes "fold (visit_uid x ctx dbFile contents dbMap jsonMap) ks (w, b, n) = (w', b', n')"
    and "\<And>uid dd. uid \<in> set ks \<Longrightarrow> map_of jsonMap uid = Some dd \<Longrightarrow> dd_id dd = i \<Longrightarrow>
           uid_same dbMap uid dd"
  shows "i \<notin> set (updated_ids (emitted w w')) \<and>
         filter (\<lambda>r. row_id r = i) (dashboard w') = filter (\<lambda>r. row_id r = i) (dashboard w)"
  using assms
proof (induction ks arbitrary: w b n)
  case Nil
  then show ?case by simp
next
  case (Cons k ks)
  obtain w1 b1 n1 where
    s1: "visit_uid x ctx dbFile contents dbMap jsonMap k (w, b, n) = (w1, b1, n1)"
    by (metis prod_cases3)
  with Cons.prems have f:
    "fold (visit_uid x ctx dbFile contents dbMap jsonMap) ks (w1, b1, n1) = (w', b', n')"
    by simp
  have 1: "i \<notin> set (updated_ids (emitted w w1)) \<and>
         filter (\<lambda>r. row_id r = i) (dashboard w1) = filter (\<lambda>r. row_id r = i) (dashboard w)"
    using Cons.prems(2) by (intro visit_uid_step(2)[OF s1]) auto
  have 2: "i \<notin> set (updated_ids (emitted w1 w')) \<and>
         filter (\<lambda>r. row_id r = i) (dashboard w') = filter (\<lambda>r. row_id r = i) (dashboard w1)"
    using Cons.prems(2) by (intro Cons.IH[OF f]) auto
  have o1: "out w1 = out w @ emitted w w1"
    using visit_uid_step(1)[OF s1] by (simp add: step_ok_def)
  have o2: "out w' = out w1 @ emitted w1 w'"
    using fold_visit_uid[OF f] by (simp add: step_ok_def)
  have "out w' = out w @ (emitted w w1 @ emitted w1 w')" using o1 o2 by simp
  then have "emitted w w' = emitted w w1 @ emitted w1 w'" by (rule emitted_append)
  with 1 2 show ?case by simp
qed

text \<open>The whole run: a fatal error leaves the world as it was.\<close>

lemma importJsonsByUID_fatal:
  "importJsonsByUID x ctx dbFile jsons w = (Some e, w') \<Longrightarrow> w' = w"
  by (auto simp: importJsonsByUID_def split: option.splits sum.splits prod.splits)

lemma importJsonsByUID_ok:
  assumes "importJsonsByUID x ctx dbFile jsons w = (None, w')"
  shows "\<exists>contents dbMap jsonMap w1 b n.
           ReadFile w dbFile = Some contents \<and>
           load_dbMap x (dashboard w) [] = Inr dbMap \<and>
           load_jsonMap x w dbMap jsons [] = Inr jsonMap \<and>
           fold (visit_uid x ctx dbFile contents dbMap jsonMap) (map_range x (map fst jsonMap))
             (w, False, 0) = (w1, b, n) \<and>
           w' = printf (MsgUIDSummary (length dbMap) (length jsonMap) n) w1"
  using assms
  by (auto simp: importJsonsByUID_def split: option.splits sum.splits prod.splits)



section \<open>importJsonsByTitle: one item\<close>

lemma ReadFile_printf [simp]: "ReadFile (printf m w) p = ReadFile w p"
  by (simp add: ReadFile_def)


lemma import_title_update:
  assumes ary: "Split_semicolon jdata = ary" "length ary = 1 \<or> length ary = 3"
    and rd: "ReadFile w (hd ary) = Some bytes"
    and um: "Unmarshal x bytes dash0 = Some dash"
    and rows: "filter (\<lambda>r. row_title r = (if length ary > 1 then ary ! 1 else Title dash))
                 (dashboard w) = r0 # rs"
    and um2: "Unmarshal x (row_data (last (r0 # rs))) dash20 = Some dash2"
    and uid: "UID dash = UID dash2"
    and ut: "updateTags x ctx (row_id (last (r0 # rs))) (Tags dash) (UID dash @ '' '' @ Title dash)
               (exec_update (Title dash)
                  (if length ary > 2 then ary ! 2 else row_slug (last (r0 # rs))) bytes
                  (row_id (last (r0 # rs))) (printf (MsgImporting (i + 1) (hd ary) ary) w))
             = (upd, tags, w3)"
  shows "import_title x ctx dbFile contents i jdata (w, b, dash0, dash20) =
           (None,
            fst (backup_once x dbFile contents
              (write_was (hd ary) (PrettyPrintJSON x (row_data (last (r0 # rs))))
                 (printf
                    (if Debug ctx > 0
                     then MsgTitleUpdatedDebug (if length ary > 1 then ary ! 1 else Title dash)
                            (Title dash) (row_slug (last (r0 # rs)))
                            (if length ary > 2 then ary ! 2 else row_slug (last (r0 # rs)))
                            upd tags (row_data (last (r0 # rs))) bytes
                     else MsgTitleUpdated (if length ary > 1 then ary ! 1 else Title dash)
                            (Title dash) (row_slug (last (r0 # rs)))
                            (if length ary > 2 then ary ! 2 else row_slug (last (r0 # rs)))
                            upd tags) w3), b)),
            True, dash\<lparr>Tags := tags\<rparr>, dash2)"
  using assms unfolding import_title_def
  by (auto simp: Let_def backup_once_cases)








section \<open>importJsonsByUID: the two maps\<close>

lemma load_dbMap_entry:
  assumes "load_dbMap x rows m0 = Inr m" and "map_of m uid = Some dd"
  shows "map_of m0 uid = Some dd \<or>
         (\<exists>r\<in>set rows. \<exists>d. Unmarshal x (row_data r) zero_dashboard = Some d \<and> UID d = uid \<and>
            row_title r = Title d \<and> dd_dash dd = d \<and> dd_id dd = row_id r \<and>
            dd_slug dd = row_slug r \<and> dd_data dd = PrettyPrintJSON x (row_data r))"
  using assms
proof (induction rows arbitrary: m0)
  case Nil
  then show ?case by simp
next
  case (Cons r rows)
  from Cons.prems(1) obtain d where
    d: "Unmarshal x (row_data r) zero_dashboard = Some d" "row_title r = Title d"
    and l: "load_dbMap x rows
              (AList.update (UID d)
                 \<lparr>dd_dash = d, dd_id = row_id r, dd_title = row_title r,
                  dd_slug = row_slug r, dd_data = PrettyPrintJSON x (row_data r),
                  dd_fn = ''*'' @ row_slug r @ ''.json*''\<rparr> m0) = Inr m"
    by (auto split: option.splits if_splits)
  from Cons.IH[OF l Cons.prems(2)] show ?case
  proof
    assume "map_of (AList.update (UID d)
                 \<lparr>dd_dash = d, dd_id = row_id r, dd_title = row_title r,
                  dd_slug = row_slug r, dd_data = PrettyPrintJSON x (row_data r),
                  dd_fn = ''*'' @ row_slug r @ ''.json*''\<rparr> m0) uid = Some dd"
    then show ?thesis using d by (auto simp: update_conv' split: if_splits)
  next
    assume "\<exists>r\<in>set rows. \<exists>d. Unmarshal x (row_data r) zero_dashboard = Some d \<and> UID d = uid \<and>
            row_title r = Title d \<and> dd_dash dd = d \<and> dd_id dd = row_id r \<and>
            dd_slug dd = row_slug r \<and> dd_data dd = PrettyPrintJSON x (row_data r)"
    then show ?thesis by auto
  qed
qed

lemma dbMap_id_inj:
  assumes l: "load_dbMap x rows [] = Inr m"
    and pk: "distinct (map row_id rows)"
    and e1: "map_of m u1 = Some e1" and e2: "map_of m u2 = Some e2"
    and i: "dd_id e1 = dd_id e2"
  shows "u1 = u2"
proof -
  from load_dbMap_entry[OF l e1] obtain r1 d1 where
    r1: "r1 \<in> set rows" "Unmarshal x (row_data r1) zero_dashboard = Some d1" "UID d1 = u1"
        "dd_id e1 = row_id r1" by auto
  from load_dbMap_entry[OF l e2] obtain r2 d2 where
    r2: "r2 \<in> set rows" "Unmarshal x (row_data r2) zero_dashboard = Some d2" "UID d2 = u2"
        "dd_id e2 = row_id r2" by auto
  from pk have "inj_on row_id (set rows)" by (simp add: distinct_map)
  with r1 r2 i have "r1 = r2" by (auto dest: inj_onD)
  with r1 r2 show ?thesis by simp
qed

lemma load_jsonMap_docs:
  assumes "load_jsonMap x w dbMap js jm0 = Inr jm"
  shows "(\<forall>j\<in>set js. \<exists>u. doc_uid x w j = Some u \<and> u \<in> dom (map_of dbMap) \<and> u \<notin> dom (map_of jm0))
         \<and> distinct (map (doc_uid x w) js)"
  using assms
proof (induction js arbitrary: jm0)
  case Nil
  then show ?case by simp
next
  case (Cons j js)
  from Cons.prems obtain bytes d dbDash where
    a: "ReadFile w j = Some bytes" "Unmarshal x bytes zero_dashboard = Some d"
       "map_of dbMap (UID d) = Some dbDash" "map_of jm0 (UID d) = None"
    and l: "load_jsonMap x w dbMap js
              (AList.update (UID d)
                 \<lparr>dd_dash = d, dd_id = dd_id dbDash, dd_title = Title d,
                  dd_slug = Slugify x (Title d), dd_data = PrettyPrintJSON x bytes, dd_fn = j\<rparr> jm0)
            = Inr jm"
    by (auto split: option.splits)
  have u: "doc_uid x w j = Some (UID d)" using a by (simp add: doc_uid_def)
  from Cons.IH[OF l] have
    ih: "\<forall>j'\<in>set js. \<exists>u. doc_uid x w j' = Some u \<and> u \<in> dom (map_of dbMap) \<and>
            u \<noteq> UID d \<and> u \<notin> dom (map_of jm0)"
    and di: "distinct (map (doc_uid x w) js)"
    by (auto simp: update_conv' dom_def split: if_splits)
  from ih u have "doc_uid x w j \<notin> set (map (doc_uid x w) js)" by auto
  with ih di u a show ?case by (auto simp: dom_def)
qed

lemma load_jsonMap_entry:
  assumes "load_jsonMap x w dbMap js jm0 = Inr jm" and "map_of jm uid = Some dd"
  shows "map_of jm0 uid = Some dd \<or>
         (\<exists>j\<in>set js. \<exists>bytes d dbDash. ReadFile w j = Some bytes \<and>
            Unmarshal x bytes zero_dashboard = Some d \<and> UID d = uid \<and>
            map_of dbMap uid = Some dbDash \<and>
            dd = \<lparr>dd_dash = d, dd_id = dd_id dbDash, dd_title = Title d,
                  dd_slug = Slugify x (Title d), dd_data = PrettyPrintJSON x bytes, dd_fn = j\<rparr>)"
  using assms
proof (induction js arbitrary: jm0)
  case Nil
  then show ?case by simp
next
  case (Cons j js)
  from Cons.prems(1) obtain bytes d dbDash where
    a: "ReadFile w j = Some bytes" "Unmarshal x bytes zero_dashboard = Some d"
       "map_of dbMap (UID d) = Some dbDash" "map_of jm0 (UID d) = None"
    and l: "load_jsonMap x w dbMap js
              (AList.update (UID d)
                 \<lparr>dd_dash = d, dd_id = dd_id dbDash, dd_title = Title d,
                  dd_slug = Slugify x (Title d), dd_data = PrettyPrintJSON x bytes, dd_fn = j\<rparr> jm0)
            = Inr jm"
    by (auto split: option.splits)
  from Cons.IH[OF l Cons.prems(2)] show ?case
  proof
    assume "map_of (AList.update (UID d)
                 \<lparr>dd_dash = d, dd_id = dd_id dbDash, dd_title = Title d,
                  dd_slug = Slugify x (Title d), dd_data = PrettyPrintJSON x bytes, dd_fn = j\<rparr> jm0)
              uid = Some dd"
    then show ?thesis using a by (auto simp: update_conv' split: if_splits)
  next
    assume "\<exists>j\<in>set js. \<exists>bytes d dbDash. ReadFile w j = Some bytes \<and>
            Unmarshal x bytes zero_dashboard = Some d \<and> UID d = uid \<and>
            map_of dbMap uid = Some dbDash \<and>
            dd = \<lparr>dd_dash = d, dd_id = dd_id dbDash, dd_title = Title d,
                  dd_slug = Slugify x (Title d), dd_data = PrettyPrintJSON x bytes, dd_fn = j\<rparr>"
    then show ?thesis by auto
  qed
qed

lemma load_dbMap_dom:
  assumes "load_dbMap x rows [] = Inr m" and "u \<in> dom (map_of m)"
  shows "\<exists>r\<in>set rows. \<exists>d. Unmarshal x (row_data r) zero_dashboard = Some d \<and> UID d = u"
proof -
  from assms(2) obtain dd where "map_of m u = Some dd" by auto
  from load_dbMap_entry[OF assms(1) this] show ?thesis by auto
qed

section \<open>Lengths of joined tags\<close>

lemma length_Join_comma:
  "xs \<noteq> [] \<Longrightarrow> Suc (length (Join xs '','')) = sum_list (map length xs) + length xs"
  by (induction xs "'',''" rule: Join.induct) auto

lemma sum_length_mset:
  "sum_list (map length xs) = sum_mset (image_mset length (mset xs))"
  by (induction xs) auto

lemma Join_longer:
  assumes sub: "mset ys \<subseteq># mset xs" and len: "length ys < length xs" and ne: "ys \<noteq> []"
  shows "Join xs '','' \<noteq> Join ys '',''"
proof -
  from len have nx: "xs \<noteq> []" by auto
  from sub obtain C where C: "mset xs = mset ys + C" by (auto simp: mset_subset_eq_exists_conv)
  have "sum_list (map length ys) \<le> sum_list (map length xs)"
    unfolding sum_length_mset C by simp
  with len have "sum_list (map length ys) + length ys < sum_list (map length xs) + length xs" by simp
  with length_Join_comma[OF nx] length_Join_comma[OF ne]
  have "length (Join ys '','') < length (Join xs '','')" by simp
  then show ?thesis by auto
qed

section \<open>updateTags: the claims\<close>

lemma updateTags_duplicate_general:
  assumes s: "set A = set (tag_rows w did)"
    and dB: "distinct (tag_rows w did)"
    and dA: "\<not> distinct A"
  shows "updateTags x ctx did A info w =
           (True, sort A,
            printf (MsgTagsUpdated info did (Join (query_tags w did) '','') (Join (sort A) '','') 0 0) w)"
proof -
  let ?B = "query_tags w did"
  have mB: "mset ?B = mset (tag_rows w did)" by (simp add: query_tags_def)
  have "mset (tag_rows w did) = mset_set (set A)"
    using dB s by (simp add: mset_set_set)
  also have "\<dots> \<subseteq># mset A"
    by (metis mset_set_set_mset_msubset set_mset_mset)
  finally have sub: "mset ?B \<subseteq># mset (sort A)" using mB by simp
  have "card (set A) < length A"
    using dA by (metis card_distinct card_length le_neq_implies_less)
  moreover have "card (set A) = length (tag_rows w did)"
    using dB s by (simp add: distinct_card)
  ultimately have len: "length ?B < length (sort A)" by (simp add: query_tags_def)
  from dA have "A \<noteq> []" by auto
  with s have "set (tag_rows w did) \<noteq> {}" by auto
  then have "length ?B \<noteq> 0" by (auto simp: query_tags_def)
  then have ne: "?B \<noteq> []" by auto
  from Join_longer[OF sub len ne] have ne: "Join (sort A) '','' \<noteq> Join ?B '',''" .
  have ss: "set (sort A) = set ?B" using s by (simp add: query_tags_def)
  from updateTags_differ[OF ne, of ctx info x] fold_sync_same_sets[OF ss]
  show ?thesis by auto
qed

section \<open>The examples, evaluated\<close>

lemma demo_docs_distinct:
  "cpu_json \<noteq> cpu_row_data"
  "cpu_json \<noteq> stale_json"
  "cpu_json \<noteq> cpu_json_pretty"
  "cpu_json \<noteq> cpu_row_pretty"
  "cpu_json \<noteq> stale_json_pretty"
  "cpu_row_data \<noteq> cpu_json"
  "cpu_row_data \<noteq> stale_json"
  "cpu_row_data \<noteq> cpu_json_pretty"
  "cpu_row_data \<noteq> cpu_row_pretty"
  "cpu_row_data \<noteq> stale_json_pretty"
  "stale_json \<noteq> cpu_json"
  "stale_json \<noteq> cpu_row_data"
  "stale_json \<noteq> cpu_json_pretty"
  "stale_json \<noteq> cpu_row_pretty"
  "stale_json \<noteq> stale_json_pretty"
  "cpu_json_pretty \<noteq> cpu_json"
  "cpu_json_pretty \<noteq> cpu_row_data"
  "cpu_json_pretty \<noteq> stale_json"
  "cpu_json_pretty \<noteq> cpu_row_pretty"
  "cpu_json_pretty \<noteq> stale_json_pretty"
  "cpu_row_pretty \<noteq> cpu_json"
  "cpu_row_pretty \<noteq> cpu_row_data"
  "cpu_row_pretty \<noteq> stale_json"
  "cpu_row_pretty \<noteq> cpu_json_pretty"
  "cpu_row_pretty \<noteq> stale_json_pretty"
  "stale_json_pretty \<noteq> cpu_json"
  "stale_json_pretty \<noteq> cpu_row_data"
  "stale_json_pretty \<noteq> stale_json"
  "stale_json_pretty \<noteq> cpu_json_pretty"
  "stale_json_pretty \<noteq> cpu_row_pretty"
  by (simp_all add: cpu_json_def cpu_row_data_def stale_json_def cpu_json_pretty_def
        cpu_row_pretty_def stale_json_pretty_def)

lemma demo_Unmarshal_simps:
  "Unmarshal demo_ext cpu_json d = Some \<lparr>Title = ''CPU'', UID = ''abc123'', Tags = [''infra'', ''perf'']\<rparr>"
  "Unmarshal demo_ext cpu_row_data d = Some \<lparr>Title = ''CPU'', UID = ''abc123'', Tags = [''perf'', ''net'']\<rparr>"
  "Unmarshal demo_ext stale_json d = Some (d\<lparr>Title := ''CPU'', UID := ''zzz999''\<rparr>)"
  "Unmarshal demo_ext cpu_json_pretty d = Some \<lparr>Title = ''CPU'', UID = ''abc123'', Tags = [''infra'', ''perf'']\<rparr>"
  "Unmarshal demo_ext cpu_row_pretty d = Some \<lparr>Title = ''CPU'', UID = ''abc123'', Tags = [''perf'', ''net'']\<rparr>"
  "Unmarshal demo_ext stale_json_pretty d = Some (d\<lparr>Title := ''CPU'', UID := ''zzz999''\<rparr>)"
  by (simp_all add: demo_ext_def demo_Unmarshal_def demo_docs_distinct)

lemma demo_Pretty_simps:
  "PrettyPrintJSON demo_ext cpu_json = cpu_json_pretty"
  "PrettyPrintJSON demo_ext cpu_row_data = cpu_row_pretty"
  "PrettyPrintJSON demo_ext stale_json = stale_json_pretty"
  "PrettyPrintJSON demo_ext cpu_json_pretty = cpu_json_pretty"
  "PrettyPrintJSON demo_ext cpu_row_pretty = cpu_row_pretty"
  "PrettyPrintJSON demo_ext stale_json_pretty = stale_json_pretty"
  by (simp_all add: demo_ext_def demo_PrettyPrintJSON_def demo_docs_distinct)

lemma demo_ext_simps:
  "Slugify demo_ext ''CPU'' = ''cpu''"
  "map_range demo_ext ks = ks"
  "digits (UnixNano demo_ext) = ''1540000000000000000''"
proof -
  have lt: "n < 10 \<Longrightarrow> digits n = [digit n]" for n
    by (subst digits.simps) simp
  have ge: "10 \<le> n \<Longrightarrow> digits n = digits (n div 10) @ [digit (n mod 10)]" for n
    by (subst digits.simps) simp
  show "digits (UnixNano demo_ext) = ''1540000000000000000''"
    by (simp add: demo_ext_def lt ge digit_def)
qed (simp_all add: demo_ext_def demo_Slugify_def)

lemma demo_files_simps:
  "demo_files ''grafana.db'' = Some ''SQLite format 3''"
  "demo_files ''cpu.json'' = Some cpu_json"
  "demo_files ''stale.json'' = Some stale_json"
  by (simp_all add: demo_files_def)

lemma demo_world_simps:
  "files demo_world = demo_files"
  "dashboard demo_world = [\<lparr>row_id = 1, row_title = ''CPU'', row_slug = ''cpu'', row_data = cpu_row_data\<rparr>]"
  "dashboard_tag demo_world = [(1, ''perf''), (1, ''net'')]"
  "out demo_world = []"
  "files same_world = demo_files"
  "dashboard same_world = [\<lparr>row_id = 1, row_title = ''CPU'', row_slug = ''cpu'', row_data = cpu_json\<rparr>]"
  "dashboard_tag same_world = [(1, ''perf''), (1, ''net'')]"
  "out same_world = []"
  by (simp_all add: demo_world_def same_world_def)

lemmas demo_simps = demo_docs_distinct demo_Unmarshal_simps demo_Pretty_simps demo_ext_simps
  demo_files_simps demo_world_simps

lemmas run_defs = import_jsons_def importJsonsByUID_def importJsonsByTitle_def ReadFile_def
  visit_uid_def import_uid_def import_title_def updateTags_def sync_tag_def
  query_tags_def tag_rows_def exec_insert_tag_def exec_delete_tag_def exec_update_def
  write_was_def backup_once_def backupFunc_def printf_def zero_dashboard_def
  uid_ctx_def title_ctx_def Let_def


section \<open>updateTags: what it reconciles\<close>

lemma updateTags_reconciles:
  assumes perm: "mset (map_range x (remdups (sort A @ query_tags w did))) =
                 mset (remdups (sort A @ query_tags w did))"
    and sound: "Join (sort A) '','' = Join (query_tags w did) '','' \<Longrightarrow> set A = set (tag_rows w did)"
    and r: "updateTags x ctx did A info w = (upd, A', w')"
  shows "mset (effects (emitted w w')) =
           image_mset (DbInsertTag did) (mset_set (set A - set (tag_rows w did))) +
           image_mset (DbDeleteTag did) (mset_set (set (tag_rows w did) - set A))"
    and "set (tag_rows w' did) = set A"
    and "upd = (Join (sort A) '','' \<noteq> Join (query_tags w did) '','')"
    and "effects (emitted w' (snd (snd (updateTags x ctx did A info w')))) = []"
proof -
  let ?B = "query_tags w did"
  let ?ks = "map_range x (remdups (sort A @ ?B))"
  note f = updateTags_effect[OF r]
  have sB: "set ?B = set (tag_rows w did)" by (simp add: query_tags_def)
  have sks: "set ?ks = set A \<union> set ?B"
    using mset_eq_setD[OF perm] by simp
  show u: "upd = (Join (sort A) '','' \<noteq> Join ?B '','')" by (rule f(1))
  show rows: "set (tag_rows w' did) = set A"
  proof (cases upd)
    case True
    with f(9) sks show ?thesis by auto
  next
    case False
    with f(9) u sound sB show ?thesis by simp
  qed
  show "mset (effects (emitted w w')) =
           image_mset (DbInsertTag did) (mset_set (set A - set (tag_rows w did))) +
           image_mset (DbDeleteTag did) (mset_set (set (tag_rows w did) - set A))"
  proof (cases upd)
    case True
    have i: "{t \<in> set (remdups (sort A @ ?B)). t \<in> set A \<and> t \<notin> set ?B} = set A - set ?B" by auto
    have d: "{t \<in> set (remdups (sort A @ ?B)). t \<notin> set A \<and> t \<in> set ?B} = set ?B - set A" by auto
    have "mset (effects (emitted w w')) = mset (tag_plan did A ?B ?ks)"
      using f(6) True by simp
    also have "\<dots> = mset (tag_plan did A ?B (remdups (sort A @ ?B)))"
      using perm by (rule mset_tag_plan_cong)
    also have "\<dots> = image_mset (DbInsertTag did) (mset_set (set A - set ?B)) +
                      image_mset (DbDeleteTag did) (mset_set (set ?B - set A))"
      by (subst mset_tag_plan_distinct) (simp_all only: distinct_remdups i d)
    finally show ?thesis by (simp add: sB)
  next
    case False
    with u sound have "set A = set (tag_rows w did)" by simp
    with False f(6) show ?thesis by simp
  qed
  obtain upd2 A2 w2 where r2: "updateTags x ctx did A info w' = (upd2, A2, w2)"
    by (metis prod_cases3)
  have "set A = set (query_tags w' did)" using rows by (simp add: query_tags_def)
  from updateTags_effect(6)[OF r2] tag_plan_same_sets[OF this]
  show "effects (emitted w' (snd (snd (updateTags x ctx did A info w')))) = []"
    by (simp add: r2)
qed

text \<open>
  Tags that are not empty and hold no comma are told apart by their joined strings.
\<close>

lemma Join_comma_inj:
  assumes "\<forall>t\<in>set xs \<union> set ys. t \<noteq> [] \<and> CHR '','' \<notin> set t"
    and "Join xs '','' = Join ys '',''"
  shows "xs = ys"
  using assms
proof (induction xs arbitrary: ys)
  case Nil
  show ?case
  proof (cases ys)
    case (Cons y ys')
    with Nil show ?thesis by (cases ys') auto
  qed simp
next
  case (Cons a xs)
  have split: "u = v \<and> r = s" if "u @ CHR '','' # r = v @ CHR '','' # s"
    "CHR '','' \<notin> set u" "CHR '','' \<notin> set v" for u v r s :: string
    using that
  proof (induction u arbitrary: v)
    case Nil
    then show ?case by (cases v) auto
  next
    case (Cons c u)
    then show ?case by (cases v) auto
  qed
  have nosplit: "CHR '','' \<in> set u" if "u = v @ CHR '','' # s" for u v s :: string
    using that by auto
  have nosplit': "CHR '','' \<in> set u" if "v @ CHR '','' # s = u" for u v s :: string
    using that by auto
  show ?case
  proof (cases ys)
    case Nil
    with Cons.prems show ?thesis by (cases xs) auto
  next
    case ys: (Cons b ys')
    show ?thesis
    proof (cases xs)
      case Nil
      with Cons.prems ys show ?thesis
        by (cases ys') (auto dest: nosplit nosplit')
    next
      case xs: (Cons a' xs')
      show ?thesis
      proof (cases ys')
        case Nil
        with Cons.prems ys xs show ?thesis by (auto dest: nosplit nosplit')
      next
        case (Cons b' ys'')
        with Cons.prems ys xs have e: "a @ CHR '','' # Join xs '','' = b @ CHR '','' # Join ys' '',''"
          by simp
        from Cons.prems(1) ys have "CHR '','' \<notin> set a" "CHR '','' \<notin> set b" by auto
        from split[OF e this] have ab: "a = b" "Join xs '','' = Join ys' '',''" by auto
        from Cons.prems(1) ys have "\<forall>t\<in>set xs \<union> set ys'. t \<noteq> [] \<and> CHR '','' \<notin> set t" by auto
        from Cons.IH[OF this ab(2)] ab(1) ys show ?thesis by simp
      qed
    qed
  qed
qed

section \<open>The claims about updateTags\<close>

text \<open>
  C1. The claim: one call of updateTags inserts exactly the tags of the JSON that the
  database lacks and deletes exactly those of the database that the JSON lacks, and a
  second call does nothing. The code compares the two comma-joined strings first and
  returns when they are equal. For the JSON tag \<open>a,b\<close> and the database tags \<open>a\<close>
  and \<open>b\<close> both strings are \<open>a,b\<close>: the call returns false and leaves the table as it
  is, although the JSON tag is in no row and both rows are tags the JSON lacks.
\<close>

theorem updateTags_joined_strings_collide:
  "updateTags demo_ext uid_ctx 1 [''a,b''] ''abc123 CPU''
     (demo_world\<lparr>dashboard_tag := [(1, ''a''), (1, ''b'')]\<rparr>)
     = (False, [''a,b''], demo_world\<lparr>dashboard_tag := [(1, ''a''), (1, ''b'')]\<rparr>)
   \<and> set [''a,b''] - set (tag_rows (demo_world\<lparr>dashboard_tag := [(1, ''a''), (1, ''b'')]\<rparr>) 1)
       = {''a,b''}
   \<and> set (tag_rows (demo_world\<lparr>dashboard_tag := [(1, ''a''), (1, ''b'')]\<rparr>) 1) - set [''a,b'']
       = {''a'', ''b''}"
  by (simp add: updateTags_def query_tags_def tag_rows_def Let_def)

text \<open>
  C4, as the code has it: the comparison is of the sorted lists, byte by byte. Whenever the
  JSON tags are the database's tags in some order, updateTags returns false and changes
  nothing.
\<close>

theorem updateTags_order_insensitive:
  assumes "mset A = mset (tag_rows w did)"
  shows "updateTags x ctx did A info w = (False, sort A, w)"
proof -
  from assms have "sort A = query_tags w did"
    unfolding query_tags_def by (metis properties_for_sort sorted_sort mset_sort)
  then show ?thesis by (simp add: updateTags_same)
qed

theorem updateTags_order_insensitive_witness:
  "mset [''perf'', ''net''] = mset (tag_rows demo_world 1) \<and>
   updateTags demo_ext uid_ctx 1 [''perf'', ''net''] ''abc123 CPU'' demo_world
     = (False, [''net'', ''perf''], demo_world)"
proof -
  have h: "mset [''perf'', ''net''] = mset (tag_rows demo_world 1)"
    by (simp add: tag_rows_def demo_world_simps)
  from updateTags_order_insensitive[OF h, of demo_ext uid_ctx "''abc123 CPU''"] h
  show ?thesis by simp
qed

text \<open>
  C4, as the claim has it, fails: for the JSON tag \<open>Infra\<close> and the database tag
  \<open>infra\<close> updateTags returns true, inserts the one and deletes the other.
\<close>

theorem updateTags_case_sensitive_counterexample:
  "fst (updateTags demo_ext uid_ctx 1 [''Infra''] ''abc123 CPU''
          (demo_world\<lparr>dashboard_tag := [(1, ''infra'')]\<rparr>)) = True
   \<and> effects (out (snd (snd (updateTags demo_ext uid_ctx 1 [''Infra''] ''abc123 CPU''
          (demo_world\<lparr>dashboard_tag := [(1, ''infra'')]\<rparr>)))))
       = [DbInsertTag 1 ''Infra'', DbDeleteTag 1 ''infra'']"
  by (simp add: run_defs demo_simps effects_def)

section \<open>The claims about the backup\<close>








section \<open>The claims about importJsonsByUID\<close>

text \<open>
  C5. In an import by uid, take a document of the list and the record \<^verbatim>\<open>dbMap\<close> has for
  its uid, a row \<open>r\<close> of the table (ids are the primary key). When the pretty-printed
  data, the title and the slug computed from the title are those of the row, no update
  statement names the row's id and the row is in the table afterwards as it was, whatever
  updateTags reported.
\<close>

theorem unchanged_document_is_not_updated:
  assumes run: "importJsonsByUID x ctx dbFile jsons w = (e, w')"
    and pk: "distinct (map row_id (dashboard w))"
    and dbm: "load_dbMap x (dashboard w) [] = Inr dbMap"
    and j: "j \<in> set jsons"
    and rd: "ReadFile w j = Some bytes"
    and um: "Unmarshal x bytes zero_dashboard = Some dash"
    and m: "map_of dbMap (UID dash) = Some ddWas"
    and r: "r \<in> set (dashboard w)" "row_id r = dd_id ddWas"
    and same: "PrettyPrintJSON x (row_data r) = PrettyPrintJSON x bytes"
              "row_title r = Title dash"
              "row_slug r = Slugify x (Title dash)"
  shows "row_id r \<notin> set (updated_ids (emitted w w'))
         \<and> filter (\<lambda>r'. row_id r' = row_id r) (dashboard w')
             = filter (\<lambda>r'. row_id r' = row_id r) (dashboard w)
         \<and> r \<in> set (dashboard w')"
proof -
  have core: "row_id r \<notin> set (updated_ids (emitted w w'))
         \<and> filter (\<lambda>r'. row_id r' = row_id r) (dashboard w')
             = filter (\<lambda>r'. row_id r' = row_id r) (dashboard w)"
  proof (cases e)
    case (Some a)
    with run have "w' = w" by (simp add: importJsonsByUID_fatal)
    then show ?thesis by simp
  next
    case None
    from importJsonsByUID_ok[OF run[unfolded None]] dbm
    obtain contents jsonMap w1 b n where
      lj: "load_jsonMap x w dbMap jsons [] = Inr jsonMap"
      and f: "fold (visit_uid x ctx dbFile contents dbMap jsonMap) (map_range x (map fst jsonMap))
               (w, False, 0) = (w1, b, n)"
      and w': "w' = printf (MsgUIDSummary (length dbMap) (length jsonMap) n) w1"
      by auto
    from load_dbMap_entry[OF dbm m] obtain r0 d0 where
      r0: "r0 \<in> set (dashboard w)" "Unmarshal x (row_data r0) zero_dashboard = Some d0"
          "row_title r0 = Title d0" "dd_dash ddWas = d0" "dd_id ddWas = row_id r0"
          "dd_slug ddWas = row_slug r0" "dd_data ddWas = PrettyPrintJSON x (row_data r0)"
      by auto
    from pk have "inj_on row_id (set (dashboard w))" by (simp add: distinct_map)
    with r r0(1,5) have "r0 = r" by (auto dest: inj_onD)
    with r0 same have was: "Title (dd_dash ddWas) = Title dash"
      "dd_slug ddWas = Slugify x (Title dash)" "dd_data ddWas = PrettyPrintJSON x bytes"
      by simp_all
    have uj: "doc_uid x w j = Some (UID dash)" using rd um by (simp add: doc_uid_def)
    from load_jsonMap_docs[OF lj] have di: "distinct (map (doc_uid x w) jsons)" by simp
    have same_all: "uid_same dbMap uid dd"
      if "map_of jsonMap uid = Some dd" "dd_id dd = row_id r" for uid dd
    proof -
      from load_jsonMap_entry[OF lj that(1)] obtain j' bytes' d' dbDash where
        e: "j' \<in> set jsons" "ReadFile w j' = Some bytes'"
           "Unmarshal x bytes' zero_dashboard = Some d'" "UID d' = uid"
           "map_of dbMap uid = Some dbDash"
           "dd = \<lparr>dd_dash = d', dd_id = dd_id dbDash, dd_title = Title d',
                  dd_slug = Slugify x (Title d'), dd_data = PrettyPrintJSON x bytes', dd_fn = j'\<rparr>"
        by auto
      from e(6) that(2) r(2) have "dd_id dbDash = dd_id ddWas" by simp
      from dbMap_id_inj[OF dbm pk e(5) m this] have u: "uid = UID dash" .
      have "doc_uid x w j' = Some uid" using e by (simp add: doc_uid_def)
      with u uj have "doc_uid x w j' = doc_uid x w j" by simp
      with di e(1) j have "j' = j" by (auto simp: distinct_map dest: inj_onD)
      with e rd um have "bytes' = bytes" "d' = dash" by simp_all
      with e(6) u m was show ?thesis by (simp add: uid_same_def)
    qed
    from fold_visit_uid_untouched[OF f, of "row_id r"] same_all
    have 1: "row_id r \<notin> set (updated_ids (emitted w w1)) \<and>
         filter (\<lambda>r'. row_id r' = row_id r) (dashboard w1)
           = filter (\<lambda>r'. row_id r' = row_id r) (dashboard w)"
      by blast
    have o: "out w1 = out w @ emitted w w1"
      using fold_visit_uid[OF f] by (simp add: step_ok_def)
    have "out w' = out w @ (emitted w w1 @ [Printf (MsgUIDSummary (length dbMap) (length jsonMap) n)])"
      using o w' by simp
    then have "emitted w w' = emitted w w1 @ [Printf (MsgUIDSummary (length dbMap) (length jsonMap) n)]"
      by (rule emitted_append)
    with 1 w' show ?thesis by simp
  qed
  from r(1) have "r \<in> set (filter (\<lambda>r'. row_id r' = row_id r) (dashboard w))" by simp
  with core have "r \<in> set (filter (\<lambda>r'. row_id r' = row_id r) (dashboard w'))" by simp
  then have "r \<in> set (dashboard w')" by simp
  with core show ?thesis by blast
qed

text \<open>
  C6. When two documents of the list have the same uid, the import by uid ends with a
  fatal error and the world is as it was before the run: no statement has been issued
  and no file written.
\<close>

theorem duplicate_uid_is_fatal:
  assumes "i < k" and "k < length jsons"
    and "doc_uid x w (jsons ! i) = Some u"
    and "doc_uid x w (jsons ! k) = Some u"
  shows "\<exists>e. importJsonsByUID x ctx dbFile jsons w = (Some e, w)"
proof (cases "importJsonsByUID x ctx dbFile jsons w")
  case (Pair e w')
  show ?thesis
  proof (cases e)
    case (Some a)
    with Pair importJsonsByUID_fatal[of x ctx dbFile jsons w a w'] show ?thesis by simp
  next
    case None
    from importJsonsByUID_ok[OF Pair[unfolded None]] obtain dbMap jsonMap where
      "load_jsonMap x w dbMap jsons [] = Inr jsonMap" by blast
    from load_jsonMap_docs[OF this] have di: "distinct (map (doc_uid x w) jsons)" by simp
    from assms have ik: "i < length (map (doc_uid x w) jsons)" "k < length (map (doc_uid x w) jsons)"
      "i \<noteq> k" by simp_all
    from di ik have "map (doc_uid x w) jsons ! i \<noteq> map (doc_uid x w) jsons ! k"
      by (simp only: nth_eq_iff_index_eq[OF di ik(1,2)] not_False_eq_True)
    with assms show ?thesis by simp
  qed
qed

text \<open>
  C7. When a document of the list has a uid that the data of no row of the table has,
  the import by uid ends with a fatal error and the world is as it was before the run:
  nothing written to the database, no \<^verbatim>\<open>.was\<close> file, no backup.
\<close>

theorem unknown_uid_is_fatal:
  assumes "j \<in> set jsons"
    and "doc_uid x w j = Some u"
    and "\<forall>r\<in>set (dashboard w). \<forall>d. Unmarshal x (row_data r) zero_dashboard = Some d \<longrightarrow> UID d \<noteq> u"
  shows "\<exists>e. importJsonsByUID x ctx dbFile jsons w = (Some e, w)"
proof (cases "importJsonsByUID x ctx dbFile jsons w")
  case (Pair e w')
  show ?thesis
  proof (cases e)
    case (Some a)
    with Pair importJsonsByUID_fatal[of x ctx dbFile jsons w a w'] show ?thesis by simp
  next
    case None
    from importJsonsByUID_ok[OF Pair[unfolded None]] obtain dbMap jsonMap where
      d: "load_dbMap x (dashboard w) [] = Inr dbMap"
      and l: "load_jsonMap x w dbMap jsons [] = Inr jsonMap" by blast
    from load_jsonMap_docs[OF l] assms(1,2) have "u \<in> dom (map_of dbMap)" by auto
    from load_dbMap_dom[OF d this] assms(3) show ?thesis by auto
  qed
qed

lemma demo_doc_uid:
  "doc_uid demo_ext demo_world ''cpu.json'' = Some ''abc123''"
  "doc_uid demo_ext demo_world ''stale.json'' = Some ''zzz999''"
  "doc_uid demo_ext same_world ''cpu.json'' = Some ''abc123''"
  by (simp_all add: doc_uid_def ReadFile_def demo_simps zero_dashboard_def)

theorem unchanged_document_is_not_updated_witness:
  "distinct (map row_id (dashboard same_world))
   \<and> ReadFile same_world ''cpu.json'' = Some cpu_json
   \<and> Unmarshal demo_ext cpu_json zero_dashboard
       = Some \<lparr>Title = ''CPU'', UID = ''abc123'', Tags = [''infra'', ''perf'']\<rparr>
   \<and> PrettyPrintJSON demo_ext (row_data \<lparr>row_id = 1, row_title = ''CPU'', row_slug = ''cpu'', row_data = cpu_json\<rparr>)
       = PrettyPrintJSON demo_ext cpu_json
   \<and> Slugify demo_ext ''CPU'' = ''cpu''
   \<and> effects (emitted same_world
         (snd (importJsonsByUID demo_ext uid_ctx ''grafana.db'' [''cpu.json''] same_world)))
       = [DbInsertTag 1 ''infra'', DbDeleteTag 1 ''net'',
          WriteBackup ''grafana.db.1540000000000000000'' ''SQLite format 3'']
   \<and> 1 \<notin> set (updated_ids (emitted same_world
         (snd (importJsonsByUID demo_ext uid_ctx ''grafana.db'' [''cpu.json''] same_world))))
   \<and> \<lparr>row_id = 1, row_title = ''CPU'', row_slug = ''cpu'', row_data = cpu_json\<rparr>
       \<in> set (dashboard (snd (importJsonsByUID demo_ext uid_ctx ''grafana.db'' [''cpu.json''] same_world)))"
proof -
  let ?run = "importJsonsByUID demo_ext uid_ctx ''grafana.db'' [''cpu.json''] same_world"
  let ?r = "\<lparr>row_id = 1, row_title = ''CPU'', row_slug = ''cpu'', row_data = cpu_json\<rparr>"
  let ?dash = "\<lparr>Title = ''CPU'', UID = ''abc123'', Tags = [''infra'', ''perf'']\<rparr>"
  let ?ddWas = "\<lparr>dd_dash = ?dash, dd_id = 1, dd_title = ''CPU'', dd_slug = ''cpu'',
                 dd_data = cpu_json_pretty, dd_fn = ''*cpu.json*''\<rparr>"
  have run: "?run = (fst ?run, snd ?run)" by simp
  have pk: "distinct (map row_id (dashboard same_world))" by (simp add: demo_simps)
  have dbm: "load_dbMap demo_ext (dashboard same_world) [] = Inr [(''abc123'', ?ddWas)]"
    by (simp add: demo_simps zero_dashboard_def)
  have j: "''cpu.json'' \<in> set [''cpu.json'']" by simp
  have rd: "ReadFile same_world ''cpu.json'' = Some cpu_json" by (simp add: ReadFile_def demo_simps)
  have um: "Unmarshal demo_ext cpu_json zero_dashboard = Some ?dash" by (simp add: demo_simps)
  have m: "map_of [(''abc123'', ?ddWas)] (UID ?dash) = Some ?ddWas" by simp
  have r: "?r \<in> set (dashboard same_world)" "row_id ?r = dd_id ?ddWas" by (simp_all add: demo_simps)
  have same: "PrettyPrintJSON demo_ext (row_data ?r) = PrettyPrintJSON demo_ext cpu_json"
    "row_title ?r = Title ?dash" "row_slug ?r = Slugify demo_ext (Title ?dash)"
    by (simp_all add: demo_simps)
  have eff: "effects (emitted same_world (snd ?run))
       = [DbInsertTag 1 ''infra'', DbDeleteTag 1 ''net'',
          WriteBackup ''grafana.db.1540000000000000000'' ''SQLite format 3'']"
    by (simp add: emitted_def run_defs demo_simps effects_def)
  from unchanged_document_is_not_updated[OF run pk dbm j rd um m r same]
  have "1 \<notin> set (updated_ids (emitted same_world (snd ?run)))"
    and "?r \<in> set (dashboard (snd ?run))" by simp_all
  with pk rd um same eff show ?thesis by (simp add: demo_simps)
qed

theorem duplicate_uid_is_fatal_witness:
  "doc_uid demo_ext demo_world ([''cpu.json'', ''cpu.json''] ! 0) = Some ''abc123''
   \<and> doc_uid demo_ext demo_world ([''cpu.json'', ''cpu.json''] ! 1) = Some ''abc123''
   \<and> (\<exists>e. importJsonsByUID demo_ext uid_ctx ''grafana.db'' [''cpu.json'', ''cpu.json''] demo_world
            = (Some e, demo_world))
   \<and> fst (importJsonsByUID demo_ext uid_ctx ''grafana.db'' [''cpu.json'', ''cpu.json''] demo_world)
       = Some (DuplicateUID ''cpu.json''
                 \<lparr>Title = ''CPU'', UID = ''abc123'', Tags = [''infra'', ''perf'']\<rparr>
                 \<lparr>Title = ''CPU'', UID = ''abc123'', Tags = [''infra'', ''perf'']\<rparr>)"
proof -
  have h0: "doc_uid demo_ext demo_world ([''cpu.json'', ''cpu.json''] ! 0) = Some ''abc123''"
    and h1: "doc_uid demo_ext demo_world ([''cpu.json'', ''cpu.json''] ! 1) = Some ''abc123''"
    by (simp_all add: demo_doc_uid)
  have ik: "(0::nat) < 1" "1 < length [''cpu.json'', ''cpu.json'']" by simp_all
  have ev: "fst (importJsonsByUID demo_ext uid_ctx ''grafana.db'' [''cpu.json'', ''cpu.json''] demo_world)
       = Some (DuplicateUID ''cpu.json''
                 \<lparr>Title = ''CPU'', UID = ''abc123'', Tags = [''infra'', ''perf'']\<rparr>
                 \<lparr>Title = ''CPU'', UID = ''abc123'', Tags = [''infra'', ''perf'']\<rparr>)"
    by (simp add: run_defs demo_simps)
  from duplicate_uid_is_fatal[OF ik h0 h1, of uid_ctx "''grafana.db''"] h0 h1 ev
  show ?thesis by blast
qed

theorem unknown_uid_is_fatal_witness:
  "doc_uid demo_ext demo_world ''stale.json'' = Some ''zzz999''
   \<and> map (\<lambda>r. map_option UID (Unmarshal demo_ext (row_data r) zero_dashboard)) (dashboard demo_world)
       = [Some ''abc123'']
   \<and> (\<exists>e. importJsonsByUID demo_ext uid_ctx ''grafana.db'' [''cpu.json'', ''stale.json''] demo_world
            = (Some e, demo_world))
   \<and> fst (importJsonsByUID demo_ext uid_ctx ''grafana.db'' [''cpu.json'', ''stale.json''] demo_world)
       = Some (UIDNotFound ''stale.json'' ''zzz999'' ''CPU'')"
proof -
  have j: "''stale.json'' \<in> set [''cpu.json'', ''stale.json'']" by simp
  have u: "doc_uid demo_ext demo_world ''stale.json'' = Some ''zzz999''" by (simp add: demo_doc_uid)
  have no: "\<forall>r\<in>set (dashboard demo_world). \<forall>d.
          Unmarshal demo_ext (row_data r) zero_dashboard = Some d \<longrightarrow> UID d \<noteq> ''zzz999''"
    by (auto simp: demo_simps)
  have ev: "fst (importJsonsByUID demo_ext uid_ctx ''grafana.db'' [''cpu.json'', ''stale.json''] demo_world)
       = Some (UIDNotFound ''stale.json'' ''zzz999'' ''CPU'')"
    by (simp add: run_defs demo_simps)
  have uids: "map (\<lambda>r. map_option UID (Unmarshal demo_ext (row_data r) zero_dashboard))
                (dashboard demo_world) = [Some ''abc123'']"
    by (simp add: demo_simps)
  from unknown_uid_is_fatal[OF j u no, of uid_ctx "''grafana.db''"] u uids ev
  show ?thesis by blast
qed

section \<open>The claims about importJsonsByTitle\<close>



text \<open>
  C9, as the code has it. On an identifier match the import by title writes the bytes of
  the input file as they are into the data column, with the document's title and the slug
  (the new slug of the item if it has one, else the row's): the rows with the id of the
  matched row have exactly these three columns afterwards and the other rows are as they
  were. The pretty-printer is applied to the old data for the \<^verbatim>\<open>.was\<close> file only.
\<close>

theorem title_update_stores_input_bytes:
  assumes "Split_semicolon jdata = ary"
    and "length ary = 1 \<or> length ary = 3"
    and "ReadFile w (hd ary) = Some bytes"
    and "Unmarshal x bytes dash0 = Some dash"
    and "filter (\<lambda>r. row_title r = (if length ary > 1 then ary ! 1 else Title dash))
           (dashboard w) = r0 # rs"
    and "Unmarshal x (row_data (last (r0 # rs))) dash20 = Some dash2"
    and "UID dash = UID dash2"
    and "import_title x ctx dbFile contents i jdata (w, b, dash0, dash20) = (e, w', b', d', d2')"
  shows "e = None
         \<and> dashboard w' =
             map (\<lambda>r. if row_id r = row_id (last (r0 # rs))
                       then r\<lparr>row_title := Title dash,
                              row_slug := (if length ary > 2 then ary ! 2 else row_slug (last (r0 # rs))),
                              row_data := bytes\<rparr>
                       else r) (dashboard w)
         \<and> updated_ids (emitted w w') = [row_id (last (r0 # rs))]
         \<and> WriteSidecar (hd ary @ ''.was'') (PrettyPrintJSON x (row_data (last (r0 # rs))))
             \<in> set (emitted w w')"
proof -
  let ?r = "last (r0 # rs)"
  let ?slug = "if length ary > 2 then ary ! 2 else row_slug ?r"
  let ?w1 = "printf (MsgImporting (i + 1) (hd ary) ary) w"
  let ?w2 = "exec_update (Title dash) ?slug bytes (row_id ?r) ?w1"
  obtain upd tags w3 where
    ut: "updateTags x ctx (row_id ?r) (Tags dash) (UID dash @ '' '' @ Title dash) ?w2 = (upd, tags, w3)"
    by (metis prod_cases3)
  let ?m = "if Debug ctx > 0
            then MsgTitleUpdatedDebug (if length ary > 1 then ary ! 1 else Title dash) (Title dash)
                   (row_slug ?r) ?slug upd tags (row_data ?r) bytes
            else MsgTitleUpdated (if length ary > 1 then ary ! 1 else Title dash) (Title dash)
                   (row_slug ?r) ?slug upd tags"
  from import_title_update[OF assms(1-7) ut, of dbFile contents b] assms(8)
  have e: "e = None"
    and w': "w' = fst (backup_once x dbFile contents
              (write_was (hd ary) (PrettyPrintJSON x (row_data ?r)) (printf ?m w3), b))"
    by simp_all
  from updateTags_step[OF ut] obtain et where
    et: "out w3 = out ?w2 @ et" "updated_ids et = []" by blast
  have d3: "dashboard w3 = dashboard ?w2" using updateTags_effect(4)[OF ut] .
  have d: "dashboard w' = dashboard ?w2"
    unfolding w' using d3 by (cases b) (simp_all add: backup_once_cases)
  have "\<exists>tl. out w' = out w @ ([Printf (MsgImporting (i + 1) (hd ary) ary),
                    DbUpdate (Title dash) ?slug bytes (row_id ?r)] @ et @
                   [Printf ?m, WriteSidecar (hd ary @ ''.was'') (PrettyPrintJSON x (row_data ?r))] @ tl)
             \<and> updated_ids tl = []"
    unfolding w' using et by (cases b) (simp_all add: backup_once_cases)
  then obtain tl where
    o: "out w' = out w @ ([Printf (MsgImporting (i + 1) (hd ary) ary),
                    DbUpdate (Title dash) ?slug bytes (row_id ?r)] @ et @
                   [Printf ?m, WriteSidecar (hd ary @ ''.was'') (PrettyPrintJSON x (row_data ?r))] @ tl)"
    and tl: "updated_ids tl = []" by blast
  note em = emitted_append[OF o]
  have u: "updated_ids (emitted w w') = [row_id ?r]"
    unfolding em using et(2) tl by simp
  have s: "WriteSidecar (hd ary @ ''.was'') (PrettyPrintJSON x (row_data ?r)) \<in> set (emitted w w')"
    unfolding em by simp
  from e d u s show ?thesis by (simp add: dashboard_exec_update)
qed

theorem title_update_stores_input_bytes_witness:
  "Split_semicolon ''cpu.json;CPU;cpu-new'' = [''cpu.json'', ''CPU'', ''cpu-new'']
   \<and> ReadFile demo_world ''cpu.json'' = Some cpu_json
   \<and> Unmarshal demo_ext cpu_json zero_dashboard
       = Some \<lparr>Title = ''CPU'', UID = ''abc123'', Tags = [''infra'', ''perf'']\<rparr>
   \<and> Unmarshal demo_ext cpu_row_data zero_dashboard
       = Some \<lparr>Title = ''CPU'', UID = ''abc123'', Tags = [''perf'', ''net'']\<rparr>
   \<and> fst (import_title demo_ext title_ctx ''grafana.db'' ''SQLite format 3'' 0 ''cpu.json;CPU;cpu-new''
            (demo_world, False, zero_dashboard, zero_dashboard)) = None
   \<and> dashboard (fst (snd (import_title demo_ext title_ctx ''grafana.db'' ''SQLite format 3'' 0
            ''cpu.json;CPU;cpu-new'' (demo_world, False, zero_dashboard, zero_dashboard))))
       = [\<lparr>row_id = 1, row_title = ''CPU'', row_slug = ''cpu-new'', row_data = cpu_json\<rparr>]
   \<and> updated_ids (emitted demo_world (fst (snd (import_title demo_ext title_ctx ''grafana.db''
            ''SQLite format 3'' 0 ''cpu.json;CPU;cpu-new''
            (demo_world, False, zero_dashboard, zero_dashboard))))) = [1]
   \<and> WriteSidecar ''cpu.json.was'' cpu_row_pretty
       \<in> set (emitted demo_world (fst (snd (import_title demo_ext title_ctx ''grafana.db''
            ''SQLite format 3'' 0 ''cpu.json;CPU;cpu-new''
            (demo_world, False, zero_dashboard, zero_dashboard)))))"
proof -
  let ?dash = "\<lparr>Title = ''CPU'', UID = ''abc123'', Tags = [''infra'', ''perf'']\<rparr>"
  let ?dash2 = "\<lparr>Title = ''CPU'', UID = ''abc123'', Tags = [''perf'', ''net'']\<rparr>"
  let ?r = "\<lparr>row_id = 1, row_title = ''CPU'', row_slug = ''cpu'', row_data = cpu_row_data\<rparr>"
  let ?ary = "[''cpu.json'', ''CPU'', ''cpu-new'']"
  let ?it = "import_title demo_ext title_ctx ''grafana.db'' ''SQLite format 3'' 0 ''cpu.json;CPU;cpu-new''
            (demo_world, False, zero_dashboard, zero_dashboard)"
  have a1: "Split_semicolon ''cpu.json;CPU;cpu-new'' = ?ary" by simp
  have a2: "length ?ary = 1 \<or> length ?ary = 3" by simp
  have a3: "ReadFile demo_world (hd ?ary) = Some cpu_json" by (simp add: ReadFile_def demo_simps)
  have a4: "Unmarshal demo_ext cpu_json zero_dashboard = Some ?dash" by (simp add: demo_simps)
  have a5: "filter (\<lambda>r. row_title r = (if length ?ary > 1 then ?ary ! 1 else Title ?dash))
              (dashboard demo_world) = ?r # []"
    by (simp add: demo_simps)
  have a6: "Unmarshal demo_ext (row_data (last (?r # []))) zero_dashboard = Some ?dash2"
    by (simp add: demo_simps)
  have a7: "UID ?dash = UID ?dash2" by simp
  have a8: "?it = (fst ?it, fst (snd ?it), fst (snd (snd ?it)), fst (snd (snd (snd ?it))),
                   snd (snd (snd (snd ?it))))" by simp
  from title_update_stores_input_bytes[OF a1 a2 a3 a4 a5 a6 a7 a8]
  have "fst ?it = None"
    and "dashboard (fst (snd ?it))
          = [\<lparr>row_id = 1, row_title = ''CPU'', row_slug = ''cpu-new'', row_data = cpu_json\<rparr>]"
    and "updated_ids (emitted demo_world (fst (snd ?it))) = [1]"
    and "WriteSidecar ''cpu.json.was'' cpu_row_pretty \<in> set (emitted demo_world (fst (snd ?it)))"
    by (simp_all add: demo_simps)
  moreover have "ReadFile demo_world ''cpu.json'' = Some cpu_json" by (simp add: ReadFile_def demo_simps)
  moreover have "Unmarshal demo_ext cpu_row_data zero_dashboard = Some ?dash2" by (simp add: demo_simps)
  ultimately show ?thesis using a1 a4 by blast
qed

text \<open>
  C9, as the claim has it, fails: after the import by title of the specification's example
  the data column holds the bytes of the file, which are not their pretty-printed form.
\<close>

theorem title_update_not_canonical_counterexample:
  "map row_data (dashboard (snd (importJsonsByTitle demo_ext title_ctx ''grafana.db''
          [''cpu.json''] demo_world))) = [cpu_json]
   \<and> PrettyPrintJSON demo_ext cpu_json = cpu_json_pretty
   \<and> cpu_json \<noteq> cpu_json_pretty"
  by (simp add: run_defs demo_simps)

section \<open>A repeated tag and the backup\<close>

text \<open>
  C10, as the code has it. When the JSON tags of a document are, as a set, the tags of
  its dashboard in the database, the database has each of them once, and the JSON repeats
  one, updateTags returns true and issues no insert and no delete. In the import by uid,
  for a document whose title, slug and data need no update and with no backup written
  yet, the only thing written is then the backup: the tables are as they were.
\<close>

theorem repeated_tag_triggers_backup_only:
  assumes "set (Tags (dd_dash dd)) = set (tag_rows w (dd_id dd))"
    and "distinct (tag_rows w (dd_id dd))"
    and "\<not> distinct (Tags (dd_dash dd))"
    and "uid_same dbMap uid dd"
    and "import_uid x ctx dbFile contents dbMap uid dd (w, False, n) = (w', b', n')"
  shows "fst (updateTags x ctx (dd_id dd) (Tags (dd_dash dd))
                (UID (dd_dash dd) @ '' '' @ Title (dd_dash dd)) w) = True
         \<and> effects (emitted w (snd (snd (updateTags x ctx (dd_id dd) (Tags (dd_dash dd))
                (UID (dd_dash dd) @ '' '' @ Title (dd_dash dd)) w)))) = []
         \<and> effects (emitted w w') = [WriteBackup (dbFile @ ''.'' @ digits (UnixNano x)) contents]
         \<and> dashboard_tag w' = dashboard_tag w
         \<and> dashboard w' = dashboard w
         \<and> b' = True \<and> n' = n + 1"
proof -
  let ?A = "Tags (dd_dash dd)"
  let ?info = "UID (dd_dash dd) @ '' '' @ Title (dd_dash dd)"
  let ?ddWas = "case map_of dbMap uid of Some d \<Rightarrow> d | None \<Rightarrow> zero_dashboardData"
  let ?w1 = "if Debug ctx > 1 then printf (MsgUIDCompare dd ?ddWas) w else w"
  have t1: "tag_rows ?w1 (dd_id dd) = tag_rows w (dd_id dd)" by simp
  have q1: "query_tags ?w1 (dd_id dd) = query_tags w (dd_id dd)" by (simp add: query_tags_def)
  let ?m = "MsgTagsUpdated ?info (dd_id dd) (Join (query_tags w (dd_id dd)) '','')
              (Join (sort ?A) '','') 0 0"
  have u0: "updateTags x ctx (dd_id dd) ?A ?info w = (True, sort ?A, printf ?m w)"
    by (rule updateTags_duplicate_general[OF assms(1-3)])
  have u1: "updateTags x ctx (dd_id dd) ?A ?info ?w1 = (True, sort ?A, printf ?m ?w1)"
    using updateTags_duplicate_general[of ?A ?w1 "dd_id dd" x ctx ?info] assms(1-3)
    unfolding t1 q1 by simp
  from assms(4) have same: "Title (dd_dash ?ddWas) = Title (dd_dash dd) \<and>
      dd_slug ?ddWas = dd_slug dd \<and> dd_data ?ddWas = dd_data dd"
    by (simp add: uid_same_def Let_def)
  from import_uid_unfold[OF u1, of dbFile contents False n] same assms(5)
  have w': "w' = backupFunc x dbFile contents (printf ?m ?w1)" and b': "b' = True" "n' = n + 1"
    by (simp_all add: backup_once_cases)
  have e0: "effects (emitted w (snd (snd (updateTags x ctx (dd_id dd) ?A ?info w)))) = []"
    unfolding u0 by (simp add: emitted_def effects_def)
  have o: "out w' = out w @ ((if Debug ctx > 1 then [Printf (MsgUIDCompare dd ?ddWas)] else []) @
             [Printf ?m, WriteBackup (dbFile @ ''.'' @ digits (UnixNano x)) contents,
              Printf (MsgBackedUp (dbFile @ ''.'' @ digits (UnixNano x)))])"
    unfolding w' by simp
  have e1: "effects (emitted w w') = [WriteBackup (dbFile @ ''.'' @ digits (UnixNano x)) contents]"
    unfolding emitted_append[OF o] by (simp add: effects_def)
  have t: "dashboard_tag w' = dashboard_tag w" "dashboard w' = dashboard w"
    unfolding w' by simp_all
  from u0 e0 e1 t b' show ?thesis by simp
qed

theorem repeated_tag_triggers_backup_only_witness:
  "set [''perf'', ''net'', ''perf''] = set (tag_rows demo_world 1)
   \<and> distinct (tag_rows demo_world 1)
   \<and> \<not> distinct [''perf'', ''net'', ''perf'']
   \<and> fst (updateTags demo_ext uid_ctx 1 [''perf'', ''net'', ''perf''] ''abc123 CPU'' demo_world) = True
   \<and> effects (emitted demo_world
        (fst (import_uid demo_ext uid_ctx ''grafana.db'' ''SQLite format 3''
           [(''abc123'',
             \<lparr>dd_dash = \<lparr>Title = ''CPU'', UID = ''abc123'', Tags = [''perf'', ''net'']\<rparr>, dd_id = 1,
              dd_title = ''CPU'', dd_slug = ''cpu'', dd_data = cpu_row_pretty, dd_fn = ''*cpu.json*''\<rparr>)]
           ''abc123''
           \<lparr>dd_dash = \<lparr>Title = ''CPU'', UID = ''abc123'', Tags = [''perf'', ''net'', ''perf'']\<rparr>,
            dd_id = 1, dd_title = ''CPU'', dd_slug = ''cpu'', dd_data = cpu_row_pretty,
            dd_fn = ''cpu.json''\<rparr>
           (demo_world, False, 0))))
       = [WriteBackup ''grafana.db.1540000000000000000'' ''SQLite format 3'']
   \<and> dashboard_tag (fst (import_uid demo_ext uid_ctx ''grafana.db'' ''SQLite format 3''
           [(''abc123'',
             \<lparr>dd_dash = \<lparr>Title = ''CPU'', UID = ''abc123'', Tags = [''perf'', ''net'']\<rparr>, dd_id = 1,
              dd_title = ''CPU'', dd_slug = ''cpu'', dd_data = cpu_row_pretty, dd_fn = ''*cpu.json*''\<rparr>)]
           ''abc123''
           \<lparr>dd_dash = \<lparr>Title = ''CPU'', UID = ''abc123'', Tags = [''perf'', ''net'', ''perf'']\<rparr>,
            dd_id = 1, dd_title = ''CPU'', dd_slug = ''cpu'', dd_data = cpu_row_pretty,
            dd_fn = ''cpu.json''\<rparr>
           (demo_world, False, 0)))
       = [(1, ''perf''), (1, ''net'')]"
proof -
  let ?dbMap = "[(''abc123'',
             \<lparr>dd_dash = \<lparr>Title = ''CPU'', UID = ''abc123'', Tags = [''perf'', ''net'']\<rparr>, dd_id = 1,
              dd_title = ''CPU'', dd_slug = ''cpu'', dd_data = cpu_row_pretty, dd_fn = ''*cpu.json*''\<rparr>)]"
  let ?dd = "\<lparr>dd_dash = \<lparr>Title = ''CPU'', UID = ''abc123'', Tags = [''perf'', ''net'', ''perf'']\<rparr>,
            dd_id = 1, dd_title = ''CPU'', dd_slug = ''cpu'', dd_data = cpu_row_pretty,
            dd_fn = ''cpu.json''\<rparr>"
  let ?s = "import_uid demo_ext uid_ctx ''grafana.db'' ''SQLite format 3'' ?dbMap ''abc123'' ?dd
              (demo_world, False, 0)"
  have h1: "set (Tags (dd_dash ?dd)) = set (tag_rows demo_world (dd_id ?dd))"
    and h2: "distinct (tag_rows demo_world (dd_id ?dd))"
    and h3: "\<not> distinct (Tags (dd_dash ?dd))"
    by (auto simp: tag_rows_def demo_simps)
  have h4: "uid_same ?dbMap ''abc123'' ?dd" by (simp add: uid_same_def)
  have h5: "?s = (fst ?s, fst (snd ?s), snd (snd ?s))" by simp
  from repeated_tag_triggers_backup_only[OF h1 h2 h3 h4 h5]
  have "fst (updateTags demo_ext uid_ctx 1 [''perf'', ''net'', ''perf''] ''abc123 CPU'' demo_world) = True"
    and "effects (emitted demo_world (fst ?s))
          = [WriteBackup ''grafana.db.1540000000000000000'' ''SQLite format 3'']"
    and "dashboard_tag (fst ?s) = [(1, ''perf''), (1, ''net'')]"
    by (simp_all add: demo_simps)
  with h1 h2 h3 show ?thesis by simp
qed

text \<open>
  C10, as the claim has it, fails: a JSON list that repeats a tag of the database may hold
  another tag too, and then an insert is issued; and when the database has the repeated
  tag twice as well, updateTags returns false.
\<close>

theorem repeated_tag_counterexample:
  "effects (emitted (demo_world\<lparr>dashboard_tag := [(1, ''a'')]\<rparr>)
     (snd (snd (updateTags demo_ext uid_ctx 1 [''a'', ''a'', ''b''] ''abc123 CPU''
        (demo_world\<lparr>dashboard_tag := [(1, ''a'')]\<rparr>)))))
     = [DbInsertTag 1 ''b'']
   \<and> fst (updateTags demo_ext uid_ctx 1 [''a'', ''a''] ''abc123 CPU''
        (demo_world\<lparr>dashboard_tag := [(1, ''a''), (1, ''a'')]\<rparr>)) = False"
  by (simp add: emitted_def run_defs demo_simps effects_def)

end
